theory Spec2Isabelle
  imports Main "HOL-Library.AList"
begin

section \<open>JavaScript values, objects and the heap\<close>

text \<open>
  \<^verbatim>\<open>src/logger.js\<close> holds the logger twice: lines 1 to 258 are the copy with
  \<^verbatim>\<open>RESERVED_FIELDS\<close> and \<^verbatim>\<open>safeStringify\<close>, lines 259 to 481 a copy without them.  Both
  receive arbitrary JavaScript values as message and as structured data.  A value is a
  primitive, a function or a reference to an object of the heap; two references are the
  same object exactly when their addresses are equal, which is what the \<^verbatim>\<open>WeakSet\<close> of
  \<^verbatim>\<open>safeStringify\<close> and the cycle check of \<^verbatim>\<open>JSON.stringify\<close> compare.

  Numbers are the integers, written in decimal (\<open>VNum\<close>), and the three non-finite numbers.
  A function is known by what a call of it does, whatever the arguments: it returns a
  value or it throws.  An object is an array, or an object with string-keyed own
  properties, each a data property or an accessor with a getter only, all of them
  enumerable and writable, and with a prototype: \<^verbatim>\<open>Object.prototype\<close>, \<^verbatim>\<open>null\<close>, a function, or
  another object of the heap.  The built-in prototypes are the ones of the language.
  Properties are kept in insertion order; the engine's habit of listing integer-like keys
  first is not modelled, and no statement below depends on the order of an object's
  members.  Code of the data does not change the heap.
\<close>

datatype nonfinite = NaN | PosInfinity | NegInfinity

datatype jsval =
    VUndefined
  | VNull
  | VBool bool
  | VNum int
  | VNonFinite nonfinite
  | VStr string
  | VBigInt int
  | VSymbol string
  | VFunction outcome
  | VRef nat
and outcome = Returns jsval | Throws

datatype slot = Data jsval | Accessor outcome

type_synonym props = "(string \<times> jsval) list"

type_synonym slots = "(string \<times> slot) list"

datatype prototype = ObjectPrototype | NullPrototype | FunctionValue | Inherits nat

datatype jsobj = Obj prototype slots | Arr "jsval list"

type_synonym heap = "jsobj list"

text \<open>
  The exceptions: the two \<^verbatim>\<open>TypeError\<close>s of \<^verbatim>\<open>JSON.stringify\<close>, the \<^verbatim>\<open>TypeError\<close> of an
  assignment that strict code (a module) may not make, the \<^verbatim>\<open>TypeError\<close> of a conversion
  to a string, and whatever a function of the data throws.
\<close>

datatype js_error =
    TypeError_BigInt
  | TypeError_Circular
  | TypeError_Assign
  | TypeError_Convert
  | Thrown

text \<open>\<^verbatim>\<open>a ?? b\<close>, reading and defining a property of an object the logger has built.\<close>

definition nullish :: "jsval \<Rightarrow> bool" where
  "nullish v = (v = VUndefined \<or> v = VNull)"

definition coalesce :: "jsval \<Rightarrow> jsval \<Rightarrow> jsval" where
  "coalesce v d = (if nullish v then d else v)"

definition prop_get :: "props \<Rightarrow> string \<Rightarrow> jsval" where
  "prop_get ps k = (case map_of ps k of None \<Rightarrow> VUndefined | Some v \<Rightarrow> v)"

definition prop_set :: "string \<Rightarrow> jsval \<Rightarrow> props \<Rightarrow> props" where
  "prop_set k v ps = AList.update k v ps"

text \<open>Decimal digits of an array index or of an integer.\<close>

definition digit_char :: "nat \<Rightarrow> char" where
  "digit_char d = char_of (48 + d)"

fun show_nat :: "nat \<Rightarrow> string" where
  "show_nat n =
     (if n < 10 then [digit_char n] else show_nat (n div 10) @ [digit_char (n mod 10)])"

declare show_nat.simps [simp del]

definition show_int :: "int \<Rightarrow> string" where
  "show_int i = (if i < 0 then CHR ''-'' # show_nat (nat (- i)) else show_nat (nat i))"

text \<open>
  Calling a value, and reading a property (\<^verbatim>\<open>Get\<close> of the language standard): the value
  of a data property, or what the getter returns or throws.
\<close>

definition Call :: "jsval \<Rightarrow> (js_error + jsval) option" where
  "Call f =
     (case f of
        VFunction (Returns r) \<Rightarrow> Some (Inr r)
      | VFunction Throws \<Rightarrow> Some (Inl Thrown)
      | _ \<Rightarrow> None)"

definition Get :: "slot \<Rightarrow> js_error + jsval" where
  "Get sl =
     (case sl of
        Data v \<Rightarrow> Inr v
      | Accessor (Returns r) \<Rightarrow> Inr r
      | Accessor Throws \<Rightarrow> Inl Thrown)"

definition data_slots :: "props \<Rightarrow> slots" where
  "data_slots ps = map (\<lambda>(k, v). (k, Data v)) ps"

text \<open>
  The own enumerable properties with their values, as \<^verbatim>\<open>Object.entries\<close> lists them and
  as an object spread \<^verbatim>\<open>{...v}\<close> copies them: every property is read in turn, and the
  first getter that throws ends the operation.  A spread copies the properties of the
  object or array \<open>v\<close> refers to, the characters of a string, nothing for the other
  values.  An address outside the heap reads as an object without properties.
\<close>

fun entries :: "slots \<Rightarrow> js_error + props" where
  "entries [] = Inr []"
| "entries ((k, sl) # rest) =
     (case Get sl of
        Inl e \<Rightarrow> Inl e
      | Inr v \<Rightarrow>
          (case entries rest of
             Inl e \<Rightarrow> Inl e
           | Inr ps \<Rightarrow> Inr ((k, v) # ps)))"

definition indexed :: "jsval list \<Rightarrow> props" where
  "indexed xs = zip (map show_nat [0..<length xs]) xs"

definition own_entries :: "heap \<Rightarrow> jsval \<Rightarrow> js_error + props" where
  "own_entries h v =
     (case v of
        VRef a \<Rightarrow>
          (if a < length h
           then (case h ! a of Obj p sls \<Rightarrow> entries sls | Arr xs \<Rightarrow> Inr (indexed xs))
           else Inr [])
      | VStr s \<Rightarrow> Inr (indexed (map (\<lambda>c. VStr [c]) s))
      | _ \<Rightarrow> Inr [])"

text \<open>
  \<^verbatim>\<open>{...target, ...source}\<close> once the properties of the source have been read: each is
  defined on the new object in turn (also one named \<^verbatim>\<open>__proto__\<close>, which a spread defines
  like any other).
\<close>

definition spread :: "props \<Rightarrow> props \<Rightarrow> props" where
  "spread target source = fold (\<lambda>(k, v) acc. prop_set k v acc) source target"

text \<open>
  Looking a property up along the prototype chain: the first own property of that name,
  or the built-in prototype at which the objects of the heap end.  An array has its
  elements and its length, and \<^verbatim>\<open>Array.prototype\<close> adds nothing the logger could meet that
  \<^verbatim>\<open>Object.prototype\<close> has not.  No program can make a chain cyclic, so a chain is no longer
  than the heap.
\<close>

fun find_property :: "heap \<Rightarrow> nat \<Rightarrow> nat \<Rightarrow> string \<Rightarrow> slot + prototype" where
  "find_property h 0 a k = Inr NullPrototype"
| "find_property h (Suc n) a k =
     (if a < length h then
        (case h ! a of
           Obj p sls \<Rightarrow>
             (case map_of sls k of
                Some sl \<Rightarrow> Inl sl
              | None \<Rightarrow> (case p of Inherits b \<Rightarrow> find_property h n b k | _ \<Rightarrow> Inr p))
         | Arr xs \<Rightarrow>
             (case map_of (indexed xs) k of
                Some v \<Rightarrow> Inl (Data v)
              | None \<Rightarrow>
                  if k = ''length'' then Inl (Data (VNum (int (length xs))))
                  else Inr ObjectPrototype))
      else Inr ObjectPrototype)"

definition inherited :: "heap \<Rightarrow> prototype \<Rightarrow> string \<Rightarrow> slot + prototype" where
  "inherited h p k =
     (case p of Inherits b \<Rightarrow> find_property h (length h) b k | _ \<Rightarrow> Inr p)"

section \<open>JSON documents and their text\<close>

datatype json =
    JNull
  | JBool bool
  | JNum int
  | JString string
  | JObject "(string \<times> json) list"
  | JArray "json list"

definition hex_char :: "nat \<Rightarrow> char" where
  "hex_char d = (if d < 10 then char_of (48 + d) else char_of (87 + d))"

text \<open>\<^verbatim>\<open>QuoteJSONString\<close> of the language standard, on 8-bit characters.\<close>

definition quote_char :: "char \<Rightarrow> string" where
  "quote_char c =
     (let n = (of_char c :: nat) in
      if n = 34 then [CHR 0x5C, CHR 0x22]
      else if n = 92 then [CHR 0x5C, CHR 0x5C]
      else if n = 8 then [CHR 0x5C, CHR ''b'']
      else if n = 9 then [CHR 0x5C, CHR ''t'']
      else if n = 10 then [CHR 0x5C, CHR ''n'']
      else if n = 12 then [CHR 0x5C, CHR ''f'']
      else if n = 13 then [CHR 0x5C, CHR ''r'']
      else if n < 32 then [CHR 0x5C, CHR ''u'', CHR ''0'', CHR ''0'', hex_char (n div 16), hex_char (n mod 16)]
      else [c])"

definition QuoteJSONString :: "string \<Rightarrow> string" where
  "QuoteJSONString s = CHR 0x22 # concat (map quote_char s) @ [CHR 0x22]"

fun render :: "json \<Rightarrow> string"
  and render_members :: "(string \<times> json) list \<Rightarrow> string"
  and render_elements :: "json list \<Rightarrow> string"
where
  "render JNull = ''null''"
| "render (JBool b) = (if b then ''true'' else ''false'')"
| "render (JNum n) = show_int n"
| "render (JString s) = QuoteJSONString s"
| "render (JObject ms) = ''{'' @ render_members ms @ ''}''"
| "render (JArray js) = ''['' @ render_elements js @ '']''"
| "render_members [] = []"
| "render_members [(k, j)] = QuoteJSONString k @ '':'' @ render j"
| "render_members ((k, j) # m # ms) =
     QuoteJSONString k @ '':'' @ render j @ '','' @ render_members (m # ms)"
| "render_elements [] = []"
| "render_elements [j] = render j"
| "render_elements (j # j' # js) = render j @ '','' @ render_elements (j' # js)"

text \<open>
  What a caller of \<^verbatim>\<open>JSON.stringify\<close> holds afterwards: the text of the document, or
  \<^verbatim>\<open>undefined\<close> when the value has no JSON form; concatenated with a string or
  printed, the latter reads \<^verbatim>\<open>undefined\<close>.
\<close>

definition text_of :: "json option \<Rightarrow> string" where
  "text_of r = (case r of None \<Rightarrow> ''undefined'' | Some j \<Rightarrow> render j)"

section \<open>\<^verbatim>\<open>JSON.stringify\<close> with a replacer function\<close>

text \<open>
  \<^verbatim>\<open>SerializeJSONProperty\<close>, \<^verbatim>\<open>SerializeJSONObject\<close> and \<^verbatim>\<open>SerializeJSONArray\<close> of
  the language standard.  The value of a property is read (a getter may throw); if it is
  an object with a callable \<^verbatim>\<open>toJSON\<close>, its own or inherited, the result of that call takes
  its place (\<open>toJSON_step\<close>); then \<open>rep\<close>, the replacer function, is applied to key and
  value.  The replacer is a closure, so its state \<open>st\<close> is threaded through the traversal.
  \<open>stack\<close> holds the objects being serialized, innermost first: meeting one of them again
  is the circular-structure \<^verbatim>\<open>TypeError\<close>.  A property whose value has no JSON form
  (\<^verbatim>\<open>undefined\<close>, a symbol, a function) is left out of an object and written \<^verbatim>\<open>null\<close> in an
  array.
\<close>

definition toJSON_step :: "heap \<Rightarrow> jsval \<Rightarrow> js_error + jsval" where
  "toJSON_step h v =
     (case v of
        VRef a \<Rightarrow>
          (case find_property h (length h) a ''toJSON'' of
             Inl sl \<Rightarrow>
               (case Get sl of
                  Inl e \<Rightarrow> Inl e
                | Inr f \<Rightarrow> (case Call f of None \<Rightarrow> Inr v | Some r \<Rightarrow> r))
           | Inr p \<Rightarrow> Inr v)
      | _ \<Rightarrow> Inr v)"

definition prepare ::
    "heap \<Rightarrow> ('s \<Rightarrow> string \<Rightarrow> jsval \<Rightarrow> jsval \<times> 's) \<Rightarrow> 's \<Rightarrow> string \<Rightarrow> jsval \<Rightarrow> js_error + jsval \<times> 's" where
  "prepare h rep st key v0 =
     (case toJSON_step h v0 of
        Inl e \<Rightarrow> Inl e
      | Inr v1 \<Rightarrow> Inr (rep st key v1))"

text \<open>
  The traversal ends on every heap, cyclic or not: entering an object puts one more
  address of the heap on the stack, and an address already there is never entered.
\<close>

lemma unvisited_decreases:
  assumes "a < length (h::heap)" and "a \<notin> set stack"
  shows "card ({..<length h} - set (a # stack)) < card ({..<length h} - set stack)"
proof -
  have eq: "{..<length h} - set (a # stack) = ({..<length h} - set stack) - {a}"
    by auto
  have mem: "a \<in> {..<length h} - set stack"
    using assms by simp
  have "card (({..<length h} - set stack) - {a}) < card ({..<length h} - set stack)"
    by (rule card_Diff1_less) (use mem in auto)
  then show ?thesis
    unfolding eq .
qed

function SerializeJSONProperty ::
    "heap \<Rightarrow> ('s \<Rightarrow> string \<Rightarrow> jsval \<Rightarrow> jsval \<times> 's) \<Rightarrow> 's \<Rightarrow> nat list \<Rightarrow> string \<Rightarrow> jsval
      \<Rightarrow> js_error + (json option \<times> 's)"
  and SerializeJSONObject ::
    "heap \<Rightarrow> ('s \<Rightarrow> string \<Rightarrow> jsval \<Rightarrow> jsval \<times> 's) \<Rightarrow> 's \<Rightarrow> nat list \<Rightarrow> slots
      \<Rightarrow> js_error + ((string \<times> json) list \<times> 's)"
  and SerializeJSONArray ::
    "heap \<Rightarrow> ('s \<Rightarrow> string \<Rightarrow> jsval \<Rightarrow> jsval \<times> 's) \<Rightarrow> 's \<Rightarrow> nat list \<Rightarrow> nat \<Rightarrow> jsval list
      \<Rightarrow> js_error + (json list \<times> 's)"
where
  "SerializeJSONProperty h rep st stack key v0 =
     (case prepare h rep st key v0 of
        Inl e \<Rightarrow> Inl e
      | Inr (v, st1) \<Rightarrow>
        (case v of
           VNull \<Rightarrow> Inr (Some JNull, st1)
         | VBool b \<Rightarrow> Inr (Some (JBool b), st1)
         | VStr s \<Rightarrow> Inr (Some (JString s), st1)
         | VNum n \<Rightarrow> Inr (Some (JNum n), st1)
         | VNonFinite x \<Rightarrow> Inr (Some JNull, st1)
         | VBigInt n \<Rightarrow> Inl TypeError_BigInt
         | VRef a \<Rightarrow>
             if a \<in> set stack then Inl TypeError_Circular
             else if a < length h then
               (case h ! a of
                  Obj p kvs \<Rightarrow>
                    (case SerializeJSONObject h rep st1 (a # stack) kvs of
                       Inl e \<Rightarrow> Inl e
                     | Inr (ms, st2) \<Rightarrow> Inr (Some (JObject ms), st2))
                | Arr xs \<Rightarrow>
                    (case SerializeJSONArray h rep st1 (a # stack) 0 xs of
                       Inl e \<Rightarrow> Inl e
                     | Inr (js, st2) \<Rightarrow> Inr (Some (JArray js), st2)))
             else Inr (Some (JObject []), st1)
         | VUndefined \<Rightarrow> Inr (None, st1)
         | VSymbol d \<Rightarrow> Inr (None, st1)
         | VFunction f \<Rightarrow> Inr (None, st1)))"
| "SerializeJSONObject h rep st stack [] = Inr ([], st)"
| "SerializeJSONObject h rep st stack ((k, sl) # kvs) =
     (case Get sl of
        Inl e \<Rightarrow> Inl e
      | Inr v \<Rightarrow>
        (case SerializeJSONProperty h rep st stack k v of
           Inl e \<Rightarrow> Inl e
         | Inr (r, st1) \<Rightarrow>
             (case SerializeJSONObject h rep st1 stack kvs of
                Inl e \<Rightarrow> Inl e
              | Inr (ms, st2) \<Rightarrow>
                  Inr ((case r of None \<Rightarrow> ms | Some j \<Rightarrow> (k, j) # ms), st2))))"
| "SerializeJSONArray h rep st stack i [] = Inr ([], st)"
| "SerializeJSONArray h rep st stack i (v # vs) =
     (case SerializeJSONProperty h rep st stack (show_nat i) v of
        Inl e \<Rightarrow> Inl e
      | Inr (r, st1) \<Rightarrow>
          (case SerializeJSONArray h rep st1 stack (Suc i) vs of
             Inl e \<Rightarrow> Inl e
           | Inr (js, st2) \<Rightarrow>
               Inr ((case r of None \<Rightarrow> JNull | Some j \<Rightarrow> j) # js, st2)))"
  by pat_completeness auto

termination
  apply (relation "inv_image (less_than <*lex*> less_than)
     (\<lambda>x. case x of
        Inl (h, rep, st, stack, key, v) \<Rightarrow> (card ({..<length h} - set stack), 0)
      | Inr (Inl (h, rep, st, stack, kvs)) \<Rightarrow>
          (card ({..<length h} - set stack), Suc (length kvs))
      | Inr (Inr (h, rep, st, stack, i, vs)) \<Rightarrow>
          (card ({..<length h} - set stack), Suc (length vs)))")
  apply (auto simp: unvisited_decreases simp del: set_simps)
  done

declare SerializeJSONProperty.simps [simp del]

text \<open>
  \<^verbatim>\<open>JSON.stringify(value, replacer)\<close>: the value is serialized as the property \<^verbatim>\<open>""\<close> of
  a wrapper object, with an empty stack.  \<open>JSON_document\<close> is the document,
  \<open>JSON_stringify\<close> the call without a replacer.
\<close>

definition JSON_document ::
    "heap \<Rightarrow> ('s \<Rightarrow> string \<Rightarrow> jsval \<Rightarrow> jsval \<times> 's) \<Rightarrow> 's \<Rightarrow> jsval \<Rightarrow> js_error + json option" where
  "JSON_document h rep st v =
     (case SerializeJSONProperty h rep st [] [] v of
        Inl e \<Rightarrow> Inl e
      | Inr (r, st') \<Rightarrow> Inr r)"

definition no_replacer :: "unit \<Rightarrow> string \<Rightarrow> jsval \<Rightarrow> jsval \<times> unit" where
  "no_replacer st key v = (v, st)"

definition JSON_stringify :: "heap \<Rightarrow> jsval \<Rightarrow> js_error + string" where
  "JSON_stringify h v =
     (case JSON_document h no_replacer () v of
        Inl e \<Rightarrow> Inl e
      | Inr r \<Rightarrow> Inr (text_of r))"

section \<open>\<^verbatim>\<open>safeStringify\<close>\<close>

text \<open>
  Lines 39 to 50.  The replacer closes over the set \<open>seen\<close> of objects met so far:
  \<^verbatim>\<open>typeof value === 'object' && value !== null\<close> holds exactly of references (the type of a
  function is \<^verbatim>\<open>function\<close>); one already in \<open>seen\<close> is replaced by the string
  \<^verbatim>\<open>[Circular]\<close>, any other is added.  The parameter \<^verbatim>\<open>maxDepth\<close> of the source is never read
  and has no counterpart here.
\<close>

definition seen_replacer :: "nat set \<Rightarrow> string \<Rightarrow> jsval \<Rightarrow> jsval \<times> nat set" where
  "seen_replacer seen key v =
     (case v of
        VRef a \<Rightarrow> (if a \<in> seen then (VStr ''[Circular]'', seen) else (v, insert a seen))
      | _ \<Rightarrow> (v, seen))"

definition safeStringify_document :: "heap \<Rightarrow> jsval \<Rightarrow> js_error + json option" where
  "safeStringify_document h v = JSON_document h seen_replacer {} v"

definition safeStringify :: "heap \<Rightarrow> jsval \<Rightarrow> js_error + string" where
  "safeStringify h v =
     (case safeStringify_document h v of
        Inl e \<Rightarrow> Inl e
      | Inr r \<Rightarrow> Inr (text_of r))"

section \<open>The logger's state\<close>

text \<open>
  A context record is an object \<^verbatim>\<open>{ userId, txId, custom }\<close>; a field that is absent
  reads \<^verbatim>\<open>undefined\<close>, and \<open>custom = None\<close> stands for a \<^verbatim>\<open>custom\<close> that is absent (or
  otherwise falsy).  A \<^verbatim>\<open>custom\<close> is an object: the one the seed of \<^verbatim>\<open>withContext\<close> brought,
  or one the logger has built.  The logger never changes a \<^verbatim>\<open>custom\<close> object in place
  (line 129 builds a new one), so \<open>custom\<close> is held by value, as the list of its own
  properties.
\<close>

record store =
  userId :: jsval
  txId :: jsval
  custom :: "slots option"

text \<open>
  The module's variables (lines 14 and 32 to 34).  \<^verbatim>\<open>currentLevel\<close> is a rank, or a value
  that is no number (\<open>NotANumber\<close>, see \<^verbatim>\<open>replaceConsole\<close>).  \<open>stores\<close> holds the context
  records by object identity, and \<open>active\<close> is what \<^verbatim>\<open>AsyncLocalStorage\<close> has bound for the
  continuation that is running: the address of its record, if any.  \<open>generated\<close> counts
  the calls of \<^verbatim>\<open>randomUUID\<close>.
\<close>

datatype threshold = Rank nat | NotANumber

record logger =
  currentLevel :: threshold
  outputMode :: string
  logFileStream :: "string option"
  stores :: "store list"
  active :: "nat option"
  generated :: nat

definition LOG_LEVELS :: "(string \<times> nat) list" where
  "LOG_LEVELS = [(''debug'', 0), (''info'', 1), (''warn'', 2), (''error'', 3), (''none'', 4)]"

definition RESERVED_FIELDS :: "string set" where
  "RESERVED_FIELDS = {''ts'', ''level'', ''msg'', ''userId'', ''txId''}"

definition initial :: logger where
  "initial = \<lparr>currentLevel = Rank 1, outputMode = ''console'', logFileStream = None,
              stores = [], active = None, generated = 0\<rparr>"

definition getStore :: "logger \<Rightarrow> store option" where
  "getStore s =
     (case active s of
        None \<Rightarrow> None
      | Some a \<Rightarrow> if a < length (stores s) then Some (stores s ! a) else None)"

text \<open>The object \<^verbatim>\<open>{}\<close> read as a context record.\<close>

definition empty_store :: store where
  "empty_store = \<lparr>userId = VUndefined, txId = VUndefined, custom = None\<rparr>"

section \<open>\<^verbatim>\<open>emit\<close>\<close>

text \<open>
  Lines 55 to 106, in the order of the source.  \<open>now\<close> is the value of
  \<^verbatim>\<open>new Date().toISOString()\<close>; message and data are whatever the caller passed
  (lines 112 to 115 hand them on as they are).  The result lists the writes to the file
  stream and to the original console methods, or is the exception that leaves \<^verbatim>\<open>emit\<close>.
\<close>

datatype sink_write =
    StreamWrite string
  | ConsoleError string
  | ConsoleWarn string
  | ConsoleLog string

text \<open>
  Line 56: \<^verbatim>\<open>LOG_LEVELS[level] < currentLevel\<close>.  A comparison in which one side is
  \<^verbatim>\<open>undefined\<close> or a function is false.
\<close>

definition below_minimum :: "logger \<Rightarrow> string \<Rightarrow> bool" where
  "below_minimum s level =
     (case map_of LOG_LEVELS level of
        None \<Rightarrow> False
      | Some r \<Rightarrow> (case currentLevel s of Rank c \<Rightarrow> r < c | NotANumber \<Rightarrow> False))"

text \<open>
  Lines 60 to 67, once the properties of the data have been read into \<open>copied\<close>.  The
  default \<^verbatim>\<open>data = {}\<close> and \<^verbatim>\<open>undefined\<close> both spread to nothing.
\<close>

definition draft_entry :: "store \<Rightarrow> string \<Rightarrow> string \<Rightarrow> jsval \<Rightarrow> props \<Rightarrow> props" where
  "draft_entry ctx now level message copied =
     prop_set ''msg'' message
       (spread
          [(''ts'', VStr now),
           (''level'', VStr level),
           (''userId'', coalesce (userId ctx) VNull),
           (''txId'', coalesce (txId ctx) VNull)]
          copied)"

text \<open>
  The assignment \<^verbatim>\<open>entry[key] = value\<close> of line 73, on the entry as its own properties
  and its prototype.  A property the entry has is overwritten.  Otherwise the name is
  looked up along the prototype chain: an inherited data property lets the entry get a
  property of its own; an inherited accessor without a setter makes the assignment a
  \<^verbatim>\<open>TypeError\<close>, as do the read-only \<^verbatim>\<open>name\<close>, \<^verbatim>\<open>length\<close>, \<^verbatim>\<open>arguments\<close> and \<^verbatim>\<open>caller\<close> when the
  prototype is a function; and where the chain reaches \<^verbatim>\<open>Object.prototype\<close>, the name
  \<^verbatim>\<open>__proto__\<close> is its setter, which gives the entry a new prototype when the value is an
  object or \<^verbatim>\<open>null\<close> and adds no property.
\<close>

definition set_prototype :: "jsval \<Rightarrow> prototype \<Rightarrow> prototype" where
  "set_prototype v p =
     (case v of
        VRef a \<Rightarrow> Inherits a
      | VNull \<Rightarrow> NullPrototype
      | VFunction f \<Rightarrow> FunctionValue
      | _ \<Rightarrow> p)"

definition assign :: "heap \<Rightarrow> string \<Rightarrow> jsval \<Rightarrow> props \<times> prototype \<Rightarrow> js_error + props \<times> prototype" where
  "assign h key val e =
     (case e of (members, proto) \<Rightarrow>
        if key \<in> fst ` set members then Inr (prop_set key val members, proto)
        else
          (case inherited h proto key of
             Inl (Data v) \<Rightarrow> Inr (prop_set key val members, proto)
           | Inl (Accessor g) \<Rightarrow> Inl TypeError_Assign
           | Inr NullPrototype \<Rightarrow> Inr (prop_set key val members, proto)
           | Inr FunctionValue \<Rightarrow>
               if key \<in> {''name'', ''length'', ''arguments'', ''caller''} then Inl TypeError_Assign
               else if key = ''__proto__'' then Inr (members, set_prototype val proto)
               else Inr (prop_set key val members, proto)
           | Inr p \<Rightarrow>
               if key = ''__proto__'' then Inr (members, set_prototype val proto)
               else Inr (prop_set key val members, proto)))"

text \<open>Lines 71 to 75: the loop over \<^verbatim>\<open>Object.entries(ctx.custom)\<close>.\<close>

fun add_custom :: "heap \<Rightarrow> props \<times> prototype \<Rightarrow> props \<Rightarrow> js_error + props \<times> prototype" where
  "add_custom h entry [] = Inr entry"
| "add_custom h entry ((key, val) # rest) =
     (if key \<notin> RESERVED_FIELDS
      then (case assign h key val entry of
              Inl err \<Rightarrow> Inl err
            | Inr entry' \<Rightarrow> add_custom h entry' rest)
      else add_custom h entry rest)"

text \<open>
  Lines 60 to 76.  Reading the data's properties for the spread and reading the properties
  of \<^verbatim>\<open>ctx.custom\<close> for \<^verbatim>\<open>Object.entries\<close> both run getters, outside any \<^verbatim>\<open>try\<close>.
\<close>

definition log_entry ::
    "store \<Rightarrow> heap \<Rightarrow> string \<Rightarrow> string \<Rightarrow> jsval \<Rightarrow> jsval \<Rightarrow> js_error + props \<times> prototype" where
  "log_entry ctx h now level message data =
     (case own_entries h data of
        Inl err \<Rightarrow> Inl err
      | Inr copied \<Rightarrow>
          (case custom ctx of
             None \<Rightarrow> Inr (draft_entry ctx now level message copied, ObjectPrototype)
           | Some c \<Rightarrow>
               (case entries c of
                  Inl err \<Rightarrow> Inl err
                | Inr cs \<Rightarrow>
                    add_custom h (draft_entry ctx now level message copied, ObjectPrototype) cs)))"

text \<open>
  \<^verbatim>\<open>String(message)\<close> of line 87.  The conversion of an object or of a function runs code
  of that object (\<^verbatim>\<open>toString\<close>, \<^verbatim>\<open>valueOf\<close>, its own or built in); what it gives, a string
  or an exception, is the parameter \<open>conv\<close>.
\<close>

definition String_of :: "(jsval \<Rightarrow> js_error + string) \<Rightarrow> jsval \<Rightarrow> js_error + string" where
  "String_of conv v =
     (case v of
        VUndefined \<Rightarrow> Inr ''undefined''
      | VNull \<Rightarrow> Inr ''null''
      | VBool b \<Rightarrow> Inr (if b then ''true'' else ''false'')
      | VNum n \<Rightarrow> Inr (show_int n)
      | VNonFinite x \<Rightarrow>
          Inr (case x of NaN \<Rightarrow> ''NaN'' | PosInfinity \<Rightarrow> ''Infinity'' | NegInfinity \<Rightarrow> ''-Infinity'')
      | VStr s \<Rightarrow> Inr s
      | VBigInt n \<Rightarrow> Inr (show_int n)
      | VSymbol d \<Rightarrow> Inr (''Symbol('' @ d @ '')'')
      | VFunction f \<Rightarrow> conv v
      | VRef a \<Rightarrow> conv v)"

text \<open>
  Lines 78 to 89.  The entry is a fresh object, placed behind the caller's heap (whose
  values refer to addresses of that heap, below the entry); so is the object literal of
  the fallback, whose properties are evaluated in order:
  \<^verbatim>\<open>entry.ts\<close> is read from the entry, and \<^verbatim>\<open>String(message)\<close> may throw.  That exception and
  one of the fallback's own \<^verbatim>\<open>JSON.stringify\<close> are thrown inside the \<^verbatim>\<open>catch\<close> block and
  leave \<^verbatim>\<open>emit\<close>.
\<close>

definition entry_object :: "props \<times> prototype \<Rightarrow> jsobj" where
  "entry_object entry = Obj (snd entry) (data_slots (fst entry))"

definition fallback_entry :: "props \<Rightarrow> string \<Rightarrow> props" where
  "fallback_entry members original =
     [(''ts'', prop_get members ''ts''),
      (''level'', VStr ''error''),
      (''msg'', VStr ''Failed to serialize log entry''),
      (''originalMsg'', VStr original)]"

definition stringify_entry ::
    "(jsval \<Rightarrow> js_error + string) \<Rightarrow> heap \<Rightarrow> props \<times> prototype \<Rightarrow> jsval \<Rightarrow> js_error + string" where
  "stringify_entry conv h entry message =
     (case safeStringify (h @ [entry_object entry]) (VRef (length h)) of
        Inr out \<Rightarrow> Inr out
      | Inl err \<Rightarrow>
          (case String_of conv message of
             Inl err' \<Rightarrow> Inl err'
           | Inr original \<Rightarrow>
               JSON_stringify
                 (h @ [entry_object (fallback_entry (fst entry) original, ObjectPrototype)])
                 (VRef (length h))))"

text \<open>Lines 91 to 105.\<close>

definition dispatch :: "logger \<Rightarrow> string \<Rightarrow> string \<Rightarrow> sink_write list" where
  "dispatch s level out =
     (if logFileStream s \<noteq> None \<and> (outputMode s = ''file'' \<or> outputMode s = ''both'')
      then [StreamWrite (out @ [CHR 0x0A])] else [])
     @ (if outputMode s = ''console'' \<or> outputMode s = ''both''
        then [if level = ''error'' then ConsoleError out
              else if level = ''warn'' then ConsoleWarn out
              else ConsoleLog out]
        else [])"

text \<open>Line 58: \<^verbatim>\<open>asyncContext.getStore() || {}\<close>.\<close>

definition current_ctx :: "logger \<Rightarrow> store" where
  "current_ctx s = (case getStore s of None \<Rightarrow> empty_store | Some st \<Rightarrow> st)"

definition emit ::
    "(jsval \<Rightarrow> js_error + string) \<Rightarrow> logger \<Rightarrow> heap \<Rightarrow> string \<Rightarrow> string \<Rightarrow> jsval \<Rightarrow> jsval
      \<Rightarrow> js_error + sink_write list" where
  "emit conv s h now level message data =
     (if below_minimum s level then Inr []
      else
        (case log_entry (current_ctx s) h now level message data of
           Inl err \<Rightarrow> Inl err
         | Inr entry \<Rightarrow>
             (case stringify_entry conv h entry message of
                Inl err \<Rightarrow> Inl err
              | Inr out \<Rightarrow> Inr (dispatch s level out))))"

text \<open>Lines 112 to 115: the four methods of \<^verbatim>\<open>log\<close>.\<close>

definition log_debug ::
    "(jsval \<Rightarrow> js_error + string) \<Rightarrow> logger \<Rightarrow> heap \<Rightarrow> string \<Rightarrow> jsval \<Rightarrow> jsval \<Rightarrow> js_error + sink_write list" where
  "log_debug conv s h now msg data = emit conv s h now ''debug'' msg data"

definition log_info ::
    "(jsval \<Rightarrow> js_error + string) \<Rightarrow> logger \<Rightarrow> heap \<Rightarrow> string \<Rightarrow> jsval \<Rightarrow> jsval \<Rightarrow> js_error + sink_write list" where
  "log_info conv s h now msg data = emit conv s h now ''info'' msg data"

definition log_warn ::
    "(jsval \<Rightarrow> js_error + string) \<Rightarrow> logger \<Rightarrow> heap \<Rightarrow> string \<Rightarrow> jsval \<Rightarrow> jsval \<Rightarrow> js_error + sink_write list" where
  "log_warn conv s h now msg data = emit conv s h now ''warn'' msg data"

definition log_error ::
    "(jsval \<Rightarrow> js_error + string) \<Rightarrow> logger \<Rightarrow> heap \<Rightarrow> string \<Rightarrow> jsval \<Rightarrow> jsval \<Rightarrow> js_error + sink_write list" where
  "log_error conv s h now msg data = emit conv s h now ''error'' msg data"

section \<open>The second copy of \<^verbatim>\<open>emit\<close>\<close>

text \<open>
  Lines 294 to 330.  The second copy of the module has no \<^verbatim>\<open>RESERVED_FIELDS\<close> and no
  \<^verbatim>\<open>safeStringify\<close>: its \<^verbatim>\<open>emit\<close> merges the custom fields with \<^verbatim>\<open>Object.assign\<close>, which reads
  and assigns one property after the other, and serializes with \<^verbatim>\<open>JSON.stringify\<close>,
  outside any \<^verbatim>\<open>try\<close>.  Its file sink is \<^verbatim>\<open>appendFileSync\<close> on the configured path, held
  here in the field of the stream.
\<close>

fun Object_assign :: "heap \<Rightarrow> props \<times> prototype \<Rightarrow> slots \<Rightarrow> js_error + props \<times> prototype" where
  "Object_assign h entry [] = Inr entry"
| "Object_assign h entry ((key, sl) # rest) =
     (case Get sl of
        Inl err \<Rightarrow> Inl err
      | Inr val \<Rightarrow>
          (case assign h key val entry of
             Inl err \<Rightarrow> Inl err
           | Inr entry' \<Rightarrow> Object_assign h entry' rest))"

definition log_entry_second ::
    "store \<Rightarrow> heap \<Rightarrow> string \<Rightarrow> string \<Rightarrow> jsval \<Rightarrow> jsval \<Rightarrow> js_error + props \<times> prototype" where
  "log_entry_second ctx h now level message data =
     (case own_entries h data of
        Inl err \<Rightarrow> Inl err
      | Inr copied \<Rightarrow>
          (case custom ctx of
             None \<Rightarrow> Inr (draft_entry ctx now level message copied, ObjectPrototype)
           | Some c \<Rightarrow>
               Object_assign h (draft_entry ctx now level message copied, ObjectPrototype) c))"

definition emit_second ::
    "logger \<Rightarrow> heap \<Rightarrow> string \<Rightarrow> string \<Rightarrow> jsval \<Rightarrow> jsval \<Rightarrow> js_error + sink_write list" where
  "emit_second s h now level message data =
     (if below_minimum s level then Inr []
      else
        (case log_entry_second (current_ctx s) h now level message data of
           Inl err \<Rightarrow> Inl err
         | Inr entry \<Rightarrow>
             (case JSON_stringify (h @ [entry_object entry]) (VRef (length h)) of
                Inl err \<Rightarrow> Inl err
              | Inr out \<Rightarrow> Inr (dispatch s level out))))"

section \<open>Establishing, changing, capturing and restoring a context\<close>

text \<open>
  \<^verbatim>\<open>asyncContext.run(store, fn)\<close>: \<open>fn\<close> and the continuations it starts run with the
  record at address \<open>a\<close> bound; the caller's binding is back when \<open>run\<close> returns, and the
  value of \<open>fn\<close> is returned as it is.  A continuation of the chain that runs later is
  resumed the same way, with the record of its chain bound.
\<close>

definition asyncContext_run :: "nat \<Rightarrow> (logger \<Rightarrow> 'r \<times> logger) \<Rightarrow> logger \<Rightarrow> 'r \<times> logger" where
  "asyncContext_run a fn s =
     (case fn (s\<lparr>active := Some a\<rparr>) of (r, s') \<Rightarrow> (r, s'\<lparr>active := active s\<rparr>))"

text \<open>An object literal that becomes a context record: a new address.\<close>

definition new_store :: "store \<Rightarrow> logger \<Rightarrow> nat \<times> logger" where
  "new_store st s = (length (stores s), s\<lparr>stores := stores s @ [st]\<rparr>)"

text \<open>\<^verbatim>\<open>randomUUID()\<close>: the next identifier of the supply \<open>uuid\<close>.\<close>

definition randomUUID :: "(nat \<Rightarrow> string) \<Rightarrow> logger \<Rightarrow> string \<times> logger" where
  "randomUUID uuid s = (uuid (generated s), s\<lparr>generated := Suc (generated s)\<rparr>)"

text \<open>
  Lines 126 to 131.  The two spreads read the properties of the old \<^verbatim>\<open>custom\<close> and of
  the argument; a getter that throws leaves the record as it was.
\<close>

definition addContext :: "heap \<Rightarrow> jsval \<Rightarrow> logger \<Rightarrow> js_error + logger" where
  "addContext h added s =
     (case active s of
        None \<Rightarrow> Inr s
      | Some a \<Rightarrow>
          if a < length (stores s) then
            (case entries (case custom (stores s ! a) of None \<Rightarrow> [] | Some c \<Rightarrow> c) of
               Inl err \<Rightarrow> Inl err
             | Inr old \<Rightarrow>
                 (case own_entries h added of
                    Inl err \<Rightarrow> Inl err
                  | Inr new \<Rightarrow>
                      Inr (s\<lparr>stores := (stores s)
                             [a := (stores s ! a)
                                \<lparr>custom := Some (data_slots (spread (spread [] old) new))\<rparr>]\<rparr>)))
          else Inr s)"

text \<open>
  Lines 172 to 179.  The seed \<open>ctx\<close> has the shape of a context record; its fields are
  read in the order of the object literal, so the identifier is drawn before the record
  exists.
\<close>

definition withContext ::
    "(nat \<Rightarrow> string) \<Rightarrow> store \<Rightarrow> (logger \<Rightarrow> 'r \<times> logger) \<Rightarrow> logger \<Rightarrow> 'r \<times> logger" where
  "withContext uuid ctx fn s =
     (case (if nullish (txId ctx)
            then (case randomUUID uuid s of (u, s') \<Rightarrow> (VStr u, s'))
            else (txId ctx, s)) of
        (tx, s1) \<Rightarrow>
          (case new_store
                  \<lparr>userId = coalesce (userId ctx) VNull,
                   txId = tx,
                   custom = Some (case custom ctx of None \<Rightarrow> [] | Some c \<Rightarrow> c)\<rparr> s1 of
             (a, s2) \<Rightarrow> asyncContext_run a fn s2))"

text \<open>
  Lines 145 to 160, from the point where the path \<^verbatim>\<open>userIdPath\<close> has been resolved
  against the request to \<open>resolved\<close> and the header read to \<open>header\<close> (\<open>None\<close>: the request
  has no such header).  The middleware returns nothing.
\<close>

definition loggerMiddleware ::
    "(nat \<Rightarrow> string) \<Rightarrow> jsval \<Rightarrow> string option \<Rightarrow> (logger \<Rightarrow> 'r \<times> logger) \<Rightarrow> logger \<Rightarrow> logger" where
  "loggerMiddleware uuid resolved header next s =
     (case (case header of
              Some t \<Rightarrow> if t \<noteq> [] then (t, s) else randomUUID uuid s
            | None \<Rightarrow> randomUUID uuid s) of
        (tx, s1) \<Rightarrow>
          (case new_store
                  \<lparr>userId = coalesce resolved VNull, txId = VStr tx, custom = Some []\<rparr> s1 of
             (a, s2) \<Rightarrow> snd (asyncContext_run a next s2)))"

text \<open>
  Lines 192 to 198.  The snapshot \<^verbatim>\<open>{ ...asyncContext.getStore() }\<close> is a new object with
  the fields of the active record; \<^verbatim>\<open>{ ...undefined }\<close> is \<^verbatim>\<open>{}\<close>.  What is restored is
  such a snapshot.
\<close>

definition captureContext :: "logger \<Rightarrow> nat \<times> logger" where
  "captureContext s = new_store (current_ctx s) s"

definition runWithCapturedContext ::
    "nat \<Rightarrow> (logger \<Rightarrow> 'r \<times> logger) \<Rightarrow> logger \<Rightarrow> 'r \<times> logger" where
  "runWithCapturedContext captured fn s = asyncContext_run captured fn s"

section \<open>\<^verbatim>\<open>replaceConsole\<close>: the configuration\<close>

text \<open>
  Lines 209 to 225.  An option that is absent is \<open>None\<close>; the level is the property key
  the option converts to.  \<^verbatim>\<open>LOG_LEVELS[level]\<close> finds the five ranks and, since
  \<^verbatim>\<open>LOG_LEVELS\<close> is an object literal, the members it inherits from \<^verbatim>\<open>Object.prototype\<close>:
  functions and an object, none of them nullish, so \<^verbatim>\<open>??\<close> keeps them and \<^verbatim>\<open>currentLevel\<close>
  is then no number.  \<open>resolve\<close> is \<^verbatim>\<open>path.resolve\<close>, and \<open>mkdir_ok\<close> tells for which
  directories \<^verbatim>\<open>mkdirSync\<close> succeeds: its failure is the one exception that can leave
  \<^verbatim>\<open>replaceConsole\<close>, after the level and the mode have been assigned.  The result is that
  exception, if any, and the state.
\<close>

record options =
  opt_level :: "string option"
  opt_output :: "string option"
  opt_filePath :: "string option"

datatype fs_error = MkdirFailed string

definition Object_prototype_members :: "string set" where
  "Object_prototype_members =
     {''constructor'', ''__defineGetter__'', ''__defineSetter__'', ''hasOwnProperty'',
      ''__lookupGetter__'', ''__lookupSetter__'', ''isPrototypeOf'', ''propertyIsEnumerable'',
      ''toString'', ''valueOf'', ''__proto__'', ''toLocaleString''}"

definition level_lookup :: "string \<Rightarrow> threshold" where
  "level_lookup level =
     (case map_of LOG_LEVELS level of
        Some r \<Rightarrow> Rank r
      | None \<Rightarrow> if level \<in> Object_prototype_members then NotANumber else Rank 1)"

definition replaceConsole ::
    "(string \<Rightarrow> string) \<Rightarrow> (string \<Rightarrow> bool) \<Rightarrow> options \<Rightarrow> logger \<Rightarrow> fs_error option \<times> logger" where
  "replaceConsole resolve mkdir_ok opts s =
     (let level = (case opt_level opts of None \<Rightarrow> ''info'' | Some l \<Rightarrow> l);
          output = (case opt_output opts of None \<Rightarrow> ''console'' | Some out \<Rightarrow> out);
          s1 = s\<lparr>currentLevel := level_lookup level, outputMode := output\<rparr>
      in case opt_filePath opts of
           None \<Rightarrow> (None, s1)
         | Some filePath \<Rightarrow>
             if filePath \<noteq> [] \<and> (output = ''file'' \<or> output = ''both'') then
               (let resolvedPath = resolve filePath in
                if mkdir_ok resolvedPath
                then (None, s1\<lparr>logFileStream := Some resolvedPath\<rparr>)
                else (Some (MkdirFailed resolvedPath), s1))
             else (None, s1))"

text \<open>
  Lines 433 to 448, the second copy: the path is assigned on every call, \<^verbatim>\<open>null\<close> when
  the option is absent or empty.
\<close>

definition replaceConsole_second ::
    "(string \<Rightarrow> string) \<Rightarrow> (string \<Rightarrow> bool) \<Rightarrow> options \<Rightarrow> logger \<Rightarrow> fs_error option \<times> logger" where
  "replaceConsole_second resolve mkdir_ok opts s =
     (let level = (case opt_level opts of None \<Rightarrow> ''info'' | Some l \<Rightarrow> l);
          output = (case opt_output opts of None \<Rightarrow> ''console'' | Some out \<Rightarrow> out);
          path = (case opt_filePath opts of
                    None \<Rightarrow> None
                  | Some filePath \<Rightarrow> if filePath \<noteq> [] then Some (resolve filePath) else None);
          s1 = s\<lparr>currentLevel := level_lookup level, outputMode := output, logFileStream := path\<rparr>
      in case path of
           None \<Rightarrow> (None, s1)
         | Some logFilePath \<Rightarrow>
             if (output = ''file'' \<or> output = ''both'') \<and> \<not> mkdir_ok logFilePath
             then (Some (MkdirFailed logFilePath), s1)
             else (None, s1))"

section \<open>Interleaved chains\<close>

text \<open>
  What a chain does with the logger while it runs: it logs, or it adds context.  A
  schedule lists the steps of all chains in the order in which the single thread runs
  them, each with the address of the record of its chain; every step is a continuation
  resumed by \<open>asyncContext_run\<close>.
\<close>

datatype call = Log string string jsval jsval | AddContext jsval

definition perform ::
    "(jsval \<Rightarrow> js_error + string) \<Rightarrow> heap \<Rightarrow> call \<Rightarrow> logger \<Rightarrow> (js_error + sink_write list) \<times> logger" where
  "perform conv h c s =
     (case c of
        Log now level message data \<Rightarrow> (emit conv s h now level message data, s)
      | AddContext added \<Rightarrow>
          (case addContext h added s of
             Inl err \<Rightarrow> (Inl err, s)
           | Inr s' \<Rightarrow> (Inr [], s')))"

fun interleave ::
    "(jsval \<Rightarrow> js_error + string) \<Rightarrow> heap \<Rightarrow> (nat \<times> call) list \<Rightarrow> logger
      \<Rightarrow> (nat \<times> (js_error + sink_write list)) list \<times> logger" where
  "interleave conv h [] s = ([], s)"
| "interleave conv h ((a, c) # rest) s =
     (case asyncContext_run a (perform conv h c) s of
        (r, s') \<Rightarrow>
          (case interleave conv h rest s' of
             (rs, s'') \<Rightarrow> ((a, r) # rs, s'')))"

section \<open>Notions and data for the statements\<close>

text \<open>
  The JSON form of the primitives that have one by themselves.
\<close>

fun plain_json :: "jsval \<Rightarrow> json option" where
  "plain_json VNull = Some JNull"
| "plain_json (VBool b) = Some (JBool b)"
| "plain_json (VNum n) = Some (JNum n)"
| "plain_json (VNonFinite x) = Some JNull"
| "plain_json (VStr s) = Some (JString s)"
| "plain_json _ = None"

text \<open>
  Values every serialization accepts without running code of the data: no BigInt and no
  function among the values, no accessor among the properties, no function as a
  prototype.  They are a sufficient condition, used where a statement is to say which line
  is written; functions as such do no harm unless they are called.
\<close>

fun is_plain :: "jsval \<Rightarrow> bool" where
  "is_plain (VBigInt n) = False"
| "is_plain (VFunction f) = False"
| "is_plain _ = True"

definition plain_props :: "props \<Rightarrow> bool" where
  "plain_props ps = list_all (\<lambda>p. is_plain (snd p)) ps"

definition plain_slots :: "slots \<Rightarrow> bool" where
  "plain_slots sls = list_all (\<lambda>p. case snd p of Data v \<Rightarrow> is_plain v | Accessor g \<Rightarrow> False) sls"

definition plain_object :: "jsobj \<Rightarrow> bool" where
  "plain_object ob =
     (case ob of
        Obj p sls \<Rightarrow> p \<noteq> FunctionValue \<and> plain_slots sls
      | Arr xs \<Rightarrow> list_all is_plain xs)"

definition plain_heap :: "heap \<Rightarrow> bool" where
  "plain_heap h = list_all plain_object h"

definition plain_store :: "store \<Rightarrow> bool" where
  "plain_store ctx =
     (is_plain (userId ctx) \<and> is_plain (txId ctx)
      \<and> (case custom ctx of None \<Rightarrow> True | Some c \<Rightarrow> plain_slots c))"

text \<open>
  What the chain of the record at address \<open>a\<close> can observe of the logger: the
  configuration and its own record.
\<close>

definition view :: "nat \<Rightarrow> logger \<Rightarrow> threshold \<times> string \<times> string option \<times> store option" where
  "view a s =
     (currentLevel s, outputMode s, logFileStream s,
      if a < length (stores s) then Some (stores s ! a) else None)"

text \<open>
  The callback \<^verbatim>\<open>() => { log.addContext(added); log.info(...) }\<close>, for either copy of the
  logger, and a conversion for data in which nothing is converted to a string.
\<close>

definition then_log ::
    "heap \<Rightarrow> jsval \<Rightarrow> (logger \<Rightarrow> js_error + sink_write list) \<Rightarrow> logger
      \<Rightarrow> (js_error + sink_write list) \<times> logger" where
  "then_log h added log s =
     (case addContext h added s of
        Inl err \<Rightarrow> (Inl err, s)
      | Inr s' \<Rightarrow> (log s', s'))"

definition no_conversion :: "jsval \<Rightarrow> js_error + string" where
  "no_conversion v = Inl TypeError_Convert"

text \<open>
  The argument of \<^verbatim>\<open>addContext({ msg: 'spoof', level: 'error' })\<close>; an object whose
  \<^verbatim>\<open>toJSON\<close> returns such an object; and an object with an own property \<^verbatim>\<open>__proto__\<close>, as
  a computed key or \<^verbatim>\<open>JSON.parse\<close> makes it.  All at address 0.
\<close>

definition spoof :: heap where
  "spoof = [Obj ObjectPrototype [(''msg'', Data (VStr ''spoof'')), (''level'', Data (VStr ''error''))]]"

definition spoofing_toJSON :: heap where
  "spoofing_toJSON =
     [Obj ObjectPrototype [(''toJSON'', Data (VFunction (Returns (VRef 1))))],
      Obj ObjectPrototype [(''msg'', Data (VStr ''spoof'')), (''level'', Data (VStr ''error''))]]"

definition proto_key :: heap where
  "proto_key = [Obj ObjectPrototype [(''__proto__'', Data (VRef 1)), (''a'', Data (VNum 1))],
                Obj ObjectPrototype [(''b'', Data (VNum 2))]]"




definition throwing_getter :: heap where
  "throwing_getter = [Obj ObjectPrototype [(''x'', Accessor Throws)]]"

text \<open>
  An object that refers to itself, the same object with a BigInt beside the cycle, and an
  object whose two properties refer to one and the same acyclic object.
\<close>

definition cyclic :: heap where
  "cyclic = [Obj ObjectPrototype [(''self'', Data (VRef 0))]]"

definition cyclic_bigint :: heap where
  "cyclic_bigint = [Obj ObjectPrototype [(''self'', Data (VRef 0)), (''n'', Data (VBigInt 10))]]"

definition shared :: heap where
  "shared = [Obj ObjectPrototype [(''a'', Data (VRef 1)), (''b'', Data (VRef 1))],
             Obj ObjectPrototype [(''x'', Data (VNum 1))]]"

text \<open>
  Two chains with distinct records, of \<^verbatim>\<open>alice\<close> at address 0 and of \<^verbatim>\<open>bob\<close> at address 1,
  and the argument of \<^verbatim>\<open>addContext({ order: 7 })\<close>.
\<close>

definition two_chains :: logger where
  "two_chains =
     initial\<lparr>stores :=
       [\<lparr>userId = VStr ''alice'', txId = VStr ''t-alice'', custom = Some []\<rparr>,
        \<lparr>userId = VStr ''bob'', txId = VStr ''t-bob'', custom = Some []\<rparr>]\<rparr>"

definition order_fields :: heap where
  "order_fields = [Obj ObjectPrototype [(''order'', Data (VNum 7))]]"

text \<open>
  A supply of identifiers, and two seeds for \<^verbatim>\<open>withContext\<close>: one without a correlation
  id, one with the id of the source's example.
\<close>

definition tally :: "nat \<Rightarrow> string" where
  "tally n = replicate n CHR ''u''"

definition job_fresh :: store where
  "job_fresh = \<lparr>userId = VStr ''system'', txId = VUndefined, custom = None\<rparr>"

definition job_named :: store where
  "job_named = \<lparr>userId = VStr ''system'', txId = VStr ''batch-job-123'', custom = None\<rparr>"

section \<open>Property lists and the entry\<close>

lemma prop_get_prop_set:
  "prop_get (prop_set k v ps) k' = (if k' = k then v else prop_get ps k')"
  by (simp add: prop_get_def prop_set_def update_conv')

lemma prop_get_spread:
  "prop_get (spread target source) k =
     (case map_of (rev source) k of None \<Rightarrow> prop_get target k | Some v \<Rightarrow> v)"
proof (induction source arbitrary: target)
  case Nil
  then show ?case by (simp add: spread_def)
next
  case (Cons p source)
  obtain a b where p: "p = (a, b)" by (cases p)
  have step: "spread target (p # source) = spread (prop_set a b target) source"
    by (simp add: spread_def p)
  show ?case
    unfolding step Cons.IH
    by (auto simp: p prop_get_prop_set map_add_def split: option.splits)
qed


lemma assign_other:
  assumes "assign h key val e = Inr e'" and "k \<noteq> key"
  shows "prop_get (fst e') k = prop_get (fst e) k"
  using assms
  by (cases e)
     (auto simp: assign_def prop_get_prop_set
        split: if_splits sum.splits slot.splits prototype.splits)

text \<open>
  The loop of lines 71 to 75 leaves every reserved field of the entry as the literal of
  lines 60 to 67 made it, whatever \<^verbatim>\<open>custom\<close> holds.
\<close>

lemma add_custom_reserved:
  "add_custom h e cs = Inr e' \<Longrightarrow> k \<in> RESERVED_FIELDS \<Longrightarrow> prop_get (fst e') k = prop_get (fst e) k"
proof (induction cs arbitrary: e)
  case Nil
  then show ?case by simp
next
  case (Cons p cs)
  obtain key val where p: "p = (key, val)" by (cases p)
  show ?case
  proof (cases "key \<in> RESERVED_FIELDS")
    case True
    then show ?thesis
      using Cons p by simp
  next
    case False
    then obtain e1 where a: "assign h key val e = Inr e1" and rest: "add_custom h e1 cs = Inr e'"
      using Cons.prems(1) p by (auto split: sum.splits)
    have "k \<noteq> key" using False Cons.prems(2) by auto
    then have "prop_get (fst e1) k = prop_get (fst e) k"
      using assign_other[OF a] by simp
    then show ?thesis
      using Cons.IH[OF rest Cons.prems(2)] by simp
  qed
qed


lemma draft_entry_fixed:
  assumes "k \<noteq> ''msg''"
  shows "prop_get (draft_entry ctx now level message copied) k =
     (case map_of (rev copied) k of
        Some v \<Rightarrow> v
      | None \<Rightarrow>
          prop_get [(''ts'', VStr now), (''level'', VStr level),
                    (''userId'', coalesce (userId ctx) VNull),
                    (''txId'', coalesce (txId ctx) VNull)] k)"
  using assms
  by (simp add: draft_entry_def prop_get_prop_set prop_get_spread split: option.splits)

lemma log_entry_reserved:
  assumes "log_entry ctx h now level message data = Inr e" and "k \<in> RESERVED_FIELDS"
  shows "\<exists>copied. own_entries h data = Inr copied
           \<and> prop_get (fst e) k = prop_get (draft_entry ctx now level message copied) k"
  using assms add_custom_reserved[of h _ _ e k]
  by (fastforce simp: log_entry_def split: sum.splits option.splits)

lemma log_entry_copied:
  "log_entry ctx h now level message data = Inr e \<Longrightarrow> \<exists>copied. own_entries h data = Inr copied"
  by (auto simp: log_entry_def split: sum.splits)



lemma entry_identity:
  assumes "log_entry ctx h now level message data = Inr e"
    and "own_entries h data = Inr copied"
    and "''userId'' \<notin> fst ` set copied" and "''txId'' \<notin> fst ` set copied"
  shows "prop_get (fst e) ''userId'' = coalesce (userId ctx) VNull"
    and "prop_get (fst e) ''txId'' = coalesce (txId ctx) VNull"
proof -
  have u: "map_of (rev copied) ''userId'' = None" and t: "map_of (rev copied) ''txId'' = None"
    using assms(3,4) by (simp_all add: map_of_eq_None_iff)
  have du: "prop_get (draft_entry ctx now level message copied) ''userId'' = coalesce (userId ctx) VNull"
    by (subst draft_entry_fixed) (simp_all add: u prop_get_def)
  have dt: "prop_get (draft_entry ctx now level message copied) ''txId'' = coalesce (txId ctx) VNull"
    by (subst draft_entry_fixed) (simp_all add: t prop_get_def)
  have "prop_get (fst e) ''userId'' = prop_get (draft_entry ctx now level message copied) ''userId''"
    using log_entry_reserved[OF assms(1), of "''userId''"] assms(2)
    by (auto simp: RESERVED_FIELDS_def)
  then show "prop_get (fst e) ''userId'' = coalesce (userId ctx) VNull"
    using du by simp
  have "prop_get (fst e) ''txId'' = prop_get (draft_entry ctx now level message copied) ''txId''"
    using log_entry_reserved[OF assms(1), of "''txId''"] assms(2)
    by (auto simp: RESERVED_FIELDS_def)
  then show "prop_get (fst e) ''txId'' = coalesce (txId ctx) VNull"
    using dt by simp
qed

lemma entry_ts:
  assumes "log_entry ctx h now level message data = Inr e"
    and "own_entries h data = Inr copied" and "''ts'' \<notin> fst ` set copied"
  shows "prop_get (fst e) ''ts'' = VStr now"
proof -
  have t: "map_of (rev copied) ''ts'' = None"
    using assms(3) by (simp add: map_of_eq_None_iff)
  have d: "prop_get (draft_entry ctx now level message copied) ''ts'' = VStr now"
    by (subst draft_entry_fixed) (simp_all add: t prop_get_def)
  have "prop_get (fst e) ''ts'' = prop_get (draft_entry ctx now level message copied) ''ts''"
    using log_entry_reserved[OF assms(1), of "''ts''"] assms(2)
    by (auto simp: RESERVED_FIELDS_def)
  then show ?thesis
    using d by simp
qed

section \<open>What the serializer can throw\<close>

lemma Get_error: "Get sl = Inl e \<Longrightarrow> e = Thrown"
  by (auto simp: Get_def split: slot.splits outcome.splits)

lemma Call_error: "Call f = Some (Inl e) \<Longrightarrow> e = Thrown"
  by (auto simp: Call_def split: jsval.splits outcome.splits)

lemma toJSON_step_error: "toJSON_step h v = Inl e \<Longrightarrow> e = Thrown"
  by (auto simp: toJSON_step_def dest: Get_error Call_error split: jsval.splits sum.splits option.splits)

lemma prepare_error: "prepare h rep st key v = Inl e \<Longrightarrow> e = Thrown"
  by (auto simp: prepare_def dest: toJSON_step_error split: sum.splits)

text \<open>
  While \<^verbatim>\<open>safeStringify\<close> runs, every object on the stack of \<^verbatim>\<open>JSON.stringify\<close> is in
  \<open>seen\<close>, and \<open>seen\<close> only grows.  So a reference back to an object being serialized is
  replaced before the cycle check of \<^verbatim>\<open>JSON.stringify\<close> can meet it: \<^verbatim>\<open>safeStringify\<close> never
  throws the circular-structure error.
\<close>

lemma prepare_seen:
  assumes "prepare h seen_replacer st key v0 = Inr (v, st1)"
  shows "st \<subseteq> st1" and "v = VRef a \<Longrightarrow> a \<notin> st \<and> st1 = insert a st"
  using assms
  by (auto simp: prepare_def seen_replacer_def split: sum.splits jsval.splits if_splits)

lemma seen_invariant:
  fixes rep :: "nat set \<Rightarrow> string \<Rightarrow> jsval \<Rightarrow> jsval \<times> nat set"
  shows "rep = seen_replacer \<Longrightarrow> set stack \<subseteq> st \<Longrightarrow>
           SerializeJSONProperty h rep st stack key v \<noteq> Inl TypeError_Circular \<and>
           (\<forall>r st'. SerializeJSONProperty h rep st stack key v = Inr (r, st') \<longrightarrow> st \<subseteq> st')"
    and "rep = seen_replacer \<Longrightarrow> set stack \<subseteq> st \<Longrightarrow>
           SerializeJSONObject h rep st stack kvs \<noteq> Inl TypeError_Circular \<and>
           (\<forall>r st'. SerializeJSONObject h rep st stack kvs = Inr (r, st') \<longrightarrow> st \<subseteq> st')"
    and "rep = seen_replacer \<Longrightarrow> set stack \<subseteq> st \<Longrightarrow>
           SerializeJSONArray h rep st stack i vs \<noteq> Inl TypeError_Circular \<and>
           (\<forall>r st'. SerializeJSONArray h rep st stack i vs = Inr (r, st') \<longrightarrow> st \<subseteq> st')"
proof (induction h rep st stack key v and h rep st stack kvs and h rep st stack i vs
    rule: SerializeJSONProperty_SerializeJSONObject_SerializeJSONArray.induct)
  case (1 h rep st stack key v0)
  show ?case
  proof (cases "prepare h rep st key v0")
    case (Inl e)
    then show ?thesis
      using prepare_error[OF Inl] by (simp add: SerializeJSONProperty.simps)
  next
    case (Inr b)
    obtain v st1 where b: "b = (v, st1)" by (cases b)
    note prep = Inr[unfolded b]
    have sub: "st \<subseteq> st1"
      using prepare_seen(1)[of h st key v0 v st1] prep "1.prems"(1) by simp
    show ?thesis
    proof (cases "\<exists>a. v = VRef a")
      case False
      then show ?thesis
        using prep sub by (cases v) (auto simp: SerializeJSONProperty.simps)
    next
      case True
      then obtain a where v: "v = VRef a" by blast
      have fresh: "a \<notin> st" and st1: "st1 = insert a st"
        using prepare_seen(2)[of h st key v0 v st1 a] prep "1.prems"(1) v by simp_all
      have nstack: "a \<notin> set stack"
        using "1.prems"(2) fresh by blast
      have sub1: "set (a # stack) \<subseteq> st1"
        using "1.prems"(2) st1 by auto
      show ?thesis
      proof (cases "a < length h")
        case False
        then show ?thesis
          using prep v nstack sub by (auto simp: SerializeJSONProperty.simps)
      next
        case inb: True
        show ?thesis
        proof (cases "h ! a")
          case (Obj p kvs)
          have "SerializeJSONObject h rep st1 (a # stack) kvs \<noteq> Inl TypeError_Circular \<and>
                (\<forall>r st'. SerializeJSONObject h rep st1 (a # stack) kvs = Inr (r, st') \<longrightarrow> st1 \<subseteq> st')"
            using "1.IH"(1)[OF prep refl v nstack inb Obj "1.prems"(1) sub1] .
          then show ?thesis
            using prep v nstack inb Obj sub
            by (auto simp: SerializeJSONProperty.simps split: sum.splits)
        next
          case (Arr xs)
          have "SerializeJSONArray h rep st1 (a # stack) 0 xs \<noteq> Inl TypeError_Circular \<and>
                (\<forall>r st'. SerializeJSONArray h rep st1 (a # stack) 0 xs = Inr (r, st') \<longrightarrow> st1 \<subseteq> st')"
            using "1.IH"(2)[OF prep refl v nstack inb Arr "1.prems"(1) sub1] .
          then show ?thesis
            using prep v nstack inb Arr sub
            by (auto simp: SerializeJSONProperty.simps split: sum.splits)
        qed
      qed
    qed
  qed
next
  case (2 h rep st stack)
  then show ?case by simp
next
  case (3 h rep st stack k sl kvs)
  show ?case
  proof (cases "Get sl")
    case (Inl e)
    then show ?thesis
      using Get_error[OF Inl] by simp
  next
    case got: (Inr v)
    note head = "3.IH"(1)[OF got "3.prems"]
    show ?thesis
    proof (cases "SerializeJSONProperty h rep st stack k v")
      case (Inl e)
      then show ?thesis using head got by simp
    next
      case (Inr b)
      obtain r st1 where b: "b = (r, st1)" by (cases b)
      have st1: "st \<subseteq> st1" using head Inr b by simp
      have tail: "SerializeJSONObject h rep st1 stack kvs \<noteq> Inl TypeError_Circular \<and>
                  (\<forall>r st'. SerializeJSONObject h rep st1 stack kvs = Inr (r, st') \<longrightarrow> st1 \<subseteq> st')"
        using "3.IH"(2)[OF got Inr b[symmetric] "3.prems"(1)] "3.prems"(2) st1 by blast
      show ?thesis
        using got Inr b st1 tail by (auto split: sum.splits)
    qed
  qed
next
  case (4 h rep st stack i)
  then show ?case by simp
next
  case (5 h rep st stack i v vs)
  note head = "5.IH"(1)[OF "5.prems"]
  show ?case
  proof (cases "SerializeJSONProperty h rep st stack (show_nat i) v")
    case (Inl e)
    then show ?thesis using head by simp
  next
    case (Inr b)
    obtain r st1 where b: "b = (r, st1)" by (cases b)
    have st1: "st \<subseteq> st1" using head Inr b by simp
    have tail: "SerializeJSONArray h rep st1 stack (Suc i) vs \<noteq> Inl TypeError_Circular \<and>
                (\<forall>r st'. SerializeJSONArray h rep st1 stack (Suc i) vs = Inr (r, st') \<longrightarrow> st1 \<subseteq> st')"
      using "5.IH"(2)[OF Inr b[symmetric] "5.prems"(1)] "5.prems"(2) st1 by blast
    show ?thesis
      using Inr b st1 tail by (auto split: sum.splits)
  qed
qed

lemma safeStringify_document_never_circular:
  "safeStringify_document h v \<noteq> Inl TypeError_Circular"
  using seen_invariant(1)[of seen_replacer "[]" "{}" h "[]" v]
  by (auto simp: safeStringify_document_def JSON_document_def split: sum.splits)

lemma safeStringify_never_circular:
  "safeStringify h v \<noteq> Inl TypeError_Circular"
  using safeStringify_document_never_circular[of h v]
  by (auto simp: safeStringify_def split: sum.splits)

lemma seen_reference_marked:
  "a \<in> seen \<Longrightarrow> toJSON_step h v = Inr (VRef a) \<Longrightarrow>
     SerializeJSONProperty h seen_replacer seen stack key v =
       Inr (Some (JString ''[Circular]''), seen)"
  by (simp add: SerializeJSONProperty.simps prepare_def seen_replacer_def)

section \<open>The serializer on an entry\<close>

lemma seen_replacer_primitive:
  "plain_json v = Some j \<Longrightarrow> seen_replacer st key v = (v, st)"
  by (cases v) (simp_all add: seen_replacer_def)

lemma serialize_primitive:
  assumes "plain_json v = Some j" and "rep st key v = (v, st)"
  shows "SerializeJSONProperty h rep st stack key v = Inr (Some j, st)"
  using assms
  by (cases v) (auto simp: SerializeJSONProperty.simps prepare_def toJSON_step_def)

lemma serialize_plain:
  "plain_json v = Some j \<Longrightarrow>
     SerializeJSONProperty h seen_replacer seen stack key v = Inr (Some j, seen)"
  by (simp add: serialize_primitive seen_replacer_primitive)

lemma no_replacer_primitive:
  "plain_json v = Some j \<Longrightarrow> no_replacer st key v = (v, st)"
  by (simp add: no_replacer_def)

lemma serialize_plain_no_replacer:
  "plain_json v = Some j \<Longrightarrow>
     SerializeJSONProperty h no_replacer () stack key v = Inr (Some j, ())"
  by (simp add: serialize_primitive no_replacer_primitive)

lemma members_lookup:
  assumes rep: "\<And>st key v j. plain_json v = Some j \<Longrightarrow> rep st key v = (v, st)"
    and "SerializeJSONObject h rep st stack (data_slots kvs) = Inr (ms, st')"
    and "map_of kvs k = Some v" and "plain_json v = Some j"
  shows "map_of ms k = Some j"
  using assms(2,3,4)
proof (induction kvs arbitrary: st ms)
  case Nil
  then show ?case by simp
next
  case (Cons p kvs)
  obtain k' v' where p: "p = (k', v')" by (cases p)
  have slots: "data_slots (p # kvs) = (k', Data v') # data_slots kvs"
    by (simp add: data_slots_def p)
  show ?case
  proof (cases "k' = k")
    case True
    then have "v' = v" using Cons.prems(2) p by simp
    then have "SerializeJSONProperty h rep st stack k' v' = Inr (Some j, st)"
      using Cons.prems(3) rep by (simp add: serialize_primitive)
    then show ?thesis
      using Cons.prems(1) True unfolding slots by (auto simp: Get_def split: sum.splits)
  next
    case False
    then have tail: "map_of kvs k = Some v" using Cons.prems(2) p by simp
    show ?thesis
      using Cons.prems(1) Cons.IH[OF _ tail Cons.prems(3)] False unfolding slots
      by (auto simp: Get_def split: sum.splits option.splits)
  qed
qed

text \<open>
  When the entry has no callable \<^verbatim>\<open>toJSON\<close>, its document is the object of its members.
\<close>

lemma safeStringify_document_entry:
  assumes "toJSON_step (h @ [entry_object e]) (VRef (length h)) = Inr (VRef (length h))"
  shows "safeStringify_document (h @ [entry_object e]) (VRef (length h)) =
     (case SerializeJSONObject (h @ [entry_object e]) seen_replacer {length h} [length h]
             (data_slots (fst e)) of
        Inl err \<Rightarrow> Inl err
      | Inr (ms, st) \<Rightarrow> Inr (Some (JObject ms)))"
  using assms
  by (simp add: safeStringify_document_def JSON_document_def SerializeJSONProperty.simps
      prepare_def seen_replacer_def entry_object_def split: sum.splits)

lemma entry_document_member:
  assumes "toJSON_step (h @ [entry_object e]) (VRef (length h)) = Inr (VRef (length h))"
    and "safeStringify_document (h @ [entry_object e]) (VRef (length h)) = Inr r"
  shows "\<exists>ms. r = Some (JObject ms)
           \<and> (\<forall>k j. plain_json (prop_get (fst e) k) = Some j \<longrightarrow> map_of ms k = Some j)"
proof -
  obtain ms st where ser:
    "SerializeJSONObject (h @ [entry_object e]) seen_replacer {length h} [length h]
        (data_slots (fst e)) = Inr (ms, st)"
    and doc: "r = Some (JObject ms)"
    using assms(2) unfolding safeStringify_document_entry[OF assms(1)]
    by (auto split: sum.splits)
  have "map_of ms k = Some j" if j: "plain_json (prop_get (fst e) k) = Some j" for k j
  proof -
    have "map_of (fst e) k = Some (prop_get (fst e) k)"
      using j by (cases "map_of (fst e) k") (auto simp: prop_get_def)
    then show ?thesis
      using members_lookup[OF seen_replacer_primitive ser _ j] by simp
  qed
  then show ?thesis using doc by blast
qed

lemma emit_regular:
  assumes "\<not> below_minimum s level"
    and "log_entry (current_ctx s) h now level message data = Inr e"
    and "safeStringify_document (h @ [entry_object e]) (VRef (length h)) = Inr r"
  shows "emit conv s h now level message data = Inr (dispatch s level (text_of r))"
  using assms by (simp add: emit_def stringify_entry_def safeStringify_def)






text \<open>
  The fallback of lines 83 to 88 serializes whenever \<^verbatim>\<open>entry.ts\<close> does and
  \<^verbatim>\<open>String(message)\<close> returns.  So a call returns when its entry can be built, its data has
  no \<^verbatim>\<open>ts\<close> of its own and its message converts to a string.
\<close>

lemma fallback_line:
  assumes "plain_json (prop_get members ''ts'') = Some jt"
  shows "JSON_stringify (h @ [entry_object (fallback_entry members original, ObjectPrototype)])
           (VRef (length h)) =
         Inr (render (JObject
           [(''ts'', jt), (''level'', JString ''error''),
            (''msg'', JString ''Failed to serialize log entry''),
            (''originalMsg'', JString original)]))"
  using assms
  by (simp add: JSON_stringify_def JSON_document_def SerializeJSONProperty.simps[of _ _ _ "[]"]
      prepare_def toJSON_step_def no_replacer_def entry_object_def fallback_entry_def data_slots_def
      Get_def serialize_plain_no_replacer text_of_def)

lemma emit_fallback:
  assumes "\<not> below_minimum s level"
    and "log_entry (current_ctx s) h now level message data = Inr e"
    and "safeStringify (h @ [entry_object e]) (VRef (length h)) = Inl err"
    and "String_of conv message = Inr original"
    and "plain_json (prop_get (fst e) ''ts'') = Some jt"
  shows "emit conv s h now level message data =
         Inr (dispatch s level (render (JObject
           [(''ts'', jt), (''level'', JString ''error''),
            (''msg'', JString ''Failed to serialize log entry''),
            (''originalMsg'', JString original)])))"
  using assms by (simp add: emit_def stringify_entry_def fallback_line)

lemma emit_returns:
  assumes "log_entry (current_ctx s) h now level message data = Inr e"
    and "own_entries h data = Inr copied" and "''ts'' \<notin> fst ` set copied"
    and "String_of conv message = Inr original"
  shows "\<exists>ws. emit conv s h now level message data = Inr ws"
proof (cases "below_minimum s level")
  case True
  then show ?thesis by (simp add: emit_def)
next
  case False
  have ts: "plain_json (prop_get (fst e) ''ts'') = Some (JString now)"
    using entry_ts[OF assms(1,2,3)] by simp
  show ?thesis
  proof (cases "safeStringify (h @ [entry_object e]) (VRef (length h))")
    case (Inl err)
    then show ?thesis
      using emit_fallback[OF False assms(1) Inl assms(4) ts] by simp
  next
    case (Inr out)
    then show ?thesis
      using False assms(1) by (simp add: emit_def stringify_entry_def)
  qed
qed

section \<open>Values that always serialize\<close>

lemma plain_indexed:
  "list_all is_plain xs \<Longrightarrow> map_of (indexed xs) k = Some v \<Longrightarrow> is_plain v"
  by (auto simp: indexed_def list_all_iff dest!: map_of_SomeD set_zip_rightD)

lemma plain_slots_lookup:
  assumes "plain_slots sls" and "map_of sls k = Some sl"
  shows "\<exists>v. sl = Data v \<and> is_plain v"
proof -
  have "(k, sl) \<in> set sls"
    using assms(2) by (rule map_of_SomeD)
  then have "case sl of Data v \<Rightarrow> is_plain v | Accessor g \<Rightarrow> False"
    using assms(1) by (force simp: plain_slots_def list_all_iff)
  then show ?thesis
    by (cases sl) simp_all
qed

lemma find_property_plain:
  assumes "plain_heap h"
  shows "find_property h n a k = Inl sl \<Longrightarrow> \<exists>v. sl = Data v \<and> is_plain v"
    and "find_property h n a k = Inr q \<Longrightarrow> q \<noteq> FunctionValue"
proof (induction n arbitrary: a)
  case 0
  {
    case 1
    then show ?case by simp
  next
    case 2
    then show ?case by auto
  }
next
  case (Suc n)
  {
    case 1
    show ?case
    proof (cases "a < length h")
      case False
      then show ?thesis using 1 by simp
    next
      case True
      then have ob: "plain_object (h ! a)"
        using assms by (simp add: plain_heap_def list_all_length)
      show ?thesis
      proof (cases "h ! a")
        case (Obj p sls)
        then have sls: "plain_slots sls" using ob by (simp add: plain_object_def)
        show ?thesis
          using 1 True Obj Suc.IH(1) plain_slots_lookup[OF sls]
          by (auto split: option.splits prototype.splits)
      next
        case (Arr xs)
        then have xs: "list_all is_plain xs" using ob by (simp add: plain_object_def)
        show ?thesis
          using 1 True Arr plain_indexed[OF xs]
          by (auto split: option.splits if_splits)
      qed
    qed
  next
    case 2
    show ?case
    proof (cases "a < length h")
      case False
      then show ?thesis using 2 by auto
    next
      case True
      then have ob: "plain_object (h ! a)"
        using assms by (simp add: plain_heap_def list_all_length)
      show ?thesis
      proof (cases "h ! a")
        case (Obj p sls)
        then have p: "p \<noteq> FunctionValue" using ob by (simp add: plain_object_def)
        show ?thesis
          using 2 True Obj Suc.IH(2) p
          by (auto split: option.splits prototype.splits)
      next
        case (Arr xs)
        show ?thesis
          using 2 True Arr
          by (auto split: option.splits if_splits)
      qed
    qed
  }
qed

lemma Call_plain: "is_plain v \<Longrightarrow> Call v = None"
  by (cases v) (simp_all add: Call_def)

lemma toJSON_step_plain:
  assumes "plain_heap h"
  shows "toJSON_step h v = Inr v"
proof (cases v)
  case (VRef a)
  show ?thesis
  proof (cases "find_property h (length h) a ''toJSON''")
    case (Inl sl)
    then obtain w where "sl = Data w" and "is_plain w"
      using find_property_plain(1)[OF assms] by blast
    then show ?thesis
      using VRef Inl by (simp add: toJSON_step_def Get_def Call_plain)
  next
    case (Inr q)
    then show ?thesis
      using VRef by (simp add: toJSON_step_def)
  qed
qed (simp_all add: toJSON_step_def)

lemma prepare_plain:
  "plain_heap h \<Longrightarrow> prepare h rep st key v = Inr (rep st key v)"
  by (simp add: prepare_def toJSON_step_plain)

lemma plain_slots_Cons:
  "plain_slots ((k, sl) # kvs) = ((\<exists>v. sl = Data v \<and> is_plain v) \<and> plain_slots kvs)"
  by (cases sl) (simp_all add: plain_slots_def)

lemma no_error_plain:
  fixes rep :: "nat set \<Rightarrow> string \<Rightarrow> jsval \<Rightarrow> jsval \<times> nat set"
  shows "rep = seen_replacer \<Longrightarrow> plain_heap h \<Longrightarrow> is_plain v \<Longrightarrow>
           SerializeJSONProperty h rep st stack key v = Inl e \<Longrightarrow> e = TypeError_Circular"
    and "rep = seen_replacer \<Longrightarrow> plain_heap h \<Longrightarrow> plain_slots kvs \<Longrightarrow>
           SerializeJSONObject h rep st stack kvs = Inl e \<Longrightarrow> e = TypeError_Circular"
    and "rep = seen_replacer \<Longrightarrow> plain_heap h \<Longrightarrow> list_all is_plain vs \<Longrightarrow>
           SerializeJSONArray h rep st stack i vs = Inl e \<Longrightarrow> e = TypeError_Circular"
proof (induction h rep st stack key v and h rep st stack kvs and h rep st stack i vs
    rule: SerializeJSONProperty_SerializeJSONObject_SerializeJSONArray.induct)
  case (1 h rep st stack key v0)
  obtain v st1 where r: "rep st key v0 = (v, st1)" by (cases "rep st key v0")
  have prep: "prepare h rep st key v0 = Inr (v, st1)"
    using "1.prems"(2) r by (simp add: prepare_plain)
  have pv: "is_plain v"
    using r "1.prems"(1,3) by (auto simp: seen_replacer_def split: jsval.splits if_splits)
  show ?case
  proof (cases "\<exists>a. v = VRef a")
    case False
    then show ?thesis
      using prep pv "1.prems"(4) by (cases v) (auto simp: SerializeJSONProperty.simps)
  next
    case True
    then obtain a where v: "v = VRef a" by blast
    show ?thesis
    proof (cases "a \<in> set stack \<or> \<not> a < length h")
      case True
      then show ?thesis
        using prep v "1.prems"(4) by (auto simp: SerializeJSONProperty.simps split: if_splits)
    next
      case False
      then have nstack: "a \<notin> set stack" and inb: "a < length h" by auto
      have ob: "plain_object (h ! a)"
        using "1.prems"(2) inb by (simp add: plain_heap_def list_all_length)
      show ?thesis
      proof (cases "h ! a")
        case (Obj p kvs)
        have kvs: "plain_slots kvs" using ob Obj by (simp add: plain_object_def)
        show ?thesis
          using "1.IH"(1)[OF prep refl v nstack inb Obj "1.prems"(1,2) kvs] "1.prems"(4)
            prep v nstack inb Obj
          by (auto simp: SerializeJSONProperty.simps split: sum.splits)
      next
        case (Arr xs)
        have xs: "list_all is_plain xs" using ob Arr by (simp add: plain_object_def)
        show ?thesis
          using "1.IH"(2)[OF prep refl v nstack inb Arr "1.prems"(1,2) xs] "1.prems"(4)
            prep v nstack inb Arr
          by (auto simp: SerializeJSONProperty.simps split: sum.splits)
      qed
    qed
  qed
next
  case (2 h rep st stack)
  then show ?case by simp
next
  case (3 h rep st stack k sl kvs)
  obtain v where sl: "sl = Data v" and v: "is_plain v" and kvs: "plain_slots kvs"
    using "3.prems"(3) by (auto simp: plain_slots_Cons)
  have got: "Get sl = Inr v" using sl by (simp add: Get_def)
  note head = "3.IH"(1)[OF got "3.prems"(1,2) v]
  show ?case
  proof (cases "SerializeJSONProperty h rep st stack k v")
    case (Inl e')
    then show ?thesis using head "3.prems"(4) got by simp
  next
    case (Inr b)
    obtain r st1 where b: "b = (r, st1)" by (cases b)
    show ?thesis
      using "3.IH"(2)[OF got Inr b[symmetric] "3.prems"(1,2) kvs] "3.prems"(4) got Inr b
      by (auto split: sum.splits)
  qed
next
  case (4 h rep st stack i)
  then show ?case by simp
next
  case (5 h rep st stack i v vs)
  have v: "is_plain v" and vs: "list_all is_plain vs"
    using "5.prems"(3) by simp_all
  note head = "5.IH"(1)[OF "5.prems"(1,2) v]
  show ?case
  proof (cases "SerializeJSONProperty h rep st stack (show_nat i) v")
    case (Inl e')
    then show ?thesis using head "5.prems"(4) by simp
  next
    case (Inr b)
    obtain r st1 where b: "b = (r, st1)" by (cases b)
    show ?thesis
      using "5.IH"(2)[OF Inr b[symmetric] "5.prems"(1,2) vs] "5.prems"(4) Inr b
      by (auto split: sum.splits)
  qed
qed

lemma plain_slots_data: "plain_slots (data_slots ps) = plain_props ps"
  by (induction ps) (auto simp: plain_slots_def data_slots_def plain_props_def)

lemma entries_plain:
  "plain_slots sls \<Longrightarrow> \<exists>ps. entries sls = Inr ps \<and> plain_props ps"
proof (induction sls)
  case Nil
  then show ?case by (simp add: plain_props_def)
next
  case (Cons p sls)
  obtain k sl where p: "p = (k, sl)" by (cases p)
  obtain v where sl: "sl = Data v" and v: "is_plain v" and rest: "plain_slots sls"
    using Cons.prems p by (auto simp: plain_slots_Cons)
  obtain ps where "entries sls = Inr ps" and "plain_props ps"
    using Cons.IH[OF rest] by blast
  then show ?case
    using p sl v by (simp add: Get_def plain_props_def)
qed

lemma plain_props_indexed:
  "list_all is_plain xs \<Longrightarrow> plain_props (indexed xs)"
  by (auto simp: plain_props_def indexed_def list_all_iff dest: set_zip_rightD)

lemma own_entries_plain:
  assumes "plain_heap h"
  shows "\<exists>ps. own_entries h data = Inr ps \<and> plain_props ps"
proof (cases data)
  case (VRef a)
  show ?thesis
  proof (cases "a < length h")
    case True
    then have ob: "plain_object (h ! a)"
      using assms by (simp add: plain_heap_def list_all_length)
    show ?thesis
    proof (cases "h ! a")
      case (Obj p sls)
      then have "plain_slots sls" using ob by (simp add: plain_object_def)
      then show ?thesis
        using entries_plain True VRef Obj by (simp add: own_entries_def)
    next
      case (Arr xs)
      then have "list_all is_plain xs" using ob by (simp add: plain_object_def)
      then show ?thesis
        using True VRef Arr by (simp add: own_entries_def plain_props_indexed)
    qed
  next
    case False
    then show ?thesis using VRef by (simp add: own_entries_def plain_props_def)
  qed
next
  case (VStr s)
  have "list_all is_plain (map (\<lambda>c. VStr [c]) s)"
    by (simp add: list_all_iff)
  then show ?thesis
    using VStr by (simp add: own_entries_def plain_props_indexed)
qed (simp_all add: own_entries_def plain_props_def)

lemma plain_prop_set:
  "plain_props ps \<Longrightarrow> is_plain v \<Longrightarrow> plain_props (prop_set k v ps)"
  by (induction ps) (auto simp: plain_props_def prop_set_def)

lemma plain_spread:
  "plain_props target \<Longrightarrow> plain_props source \<Longrightarrow> plain_props (spread target source)"
proof (induction source arbitrary: target)
  case Nil
  then show ?case by (simp add: spread_def)
next
  case (Cons p source)
  obtain a b where p: "p = (a, b)" by (cases p)
  have step: "spread target (p # source) = spread (prop_set a b target) source"
    by (simp add: spread_def p)
  have "is_plain b" and "plain_props source"
    using Cons.prems(2) p by (simp_all add: plain_props_def)
  then show ?case
    unfolding step using Cons.IH Cons.prems(1) plain_prop_set by blast
qed

lemma coalesce_plain: "is_plain v \<Longrightarrow> is_plain (coalesce v VNull)"
  by (simp add: coalesce_def)

lemma plain_draft_entry:
  assumes "plain_store ctx" and "is_plain message" and "plain_props copied"
  shows "plain_props (draft_entry ctx now level message copied)"
proof -
  have base: "plain_props
     [(''ts'', VStr now), (''level'', VStr level),
      (''userId'', coalesce (userId ctx) VNull), (''txId'', coalesce (txId ctx) VNull)]"
    using assms(1) by (simp add: plain_props_def plain_store_def coalesce_plain)
  show ?thesis
    unfolding draft_entry_def
    by (intro plain_prop_set plain_spread base assms(2,3))
qed

lemma set_prototype_plain:
  "is_plain v \<Longrightarrow> p \<noteq> FunctionValue \<Longrightarrow> set_prototype v p \<noteq> FunctionValue"
  by (cases v) (simp_all add: set_prototype_def)

lemma assign_plain:
  assumes "plain_heap h" and "is_plain val" and "plain_props m" and "p \<noteq> FunctionValue"
  shows "\<exists>m' p'. assign h key val (m, p) = Inr (m', p') \<and> plain_props m' \<and> p' \<noteq> FunctionValue"
proof (cases "key \<in> fst ` set m")
  case True
  then show ?thesis
    using assms by (simp add: assign_def plain_prop_set)
next
  case False
  show ?thesis
  proof (cases "inherited h p key")
    case (Inl sl)
    then obtain b where "p = Inherits b" and "find_property h (length h) b key = Inl sl"
      by (auto simp: inherited_def split: prototype.splits)
    then obtain v where "sl = Data v"
      using find_property_plain(1)[OF assms(1)] by blast
    then show ?thesis
      using False Inl assms by (simp add: assign_def plain_prop_set)
  next
    case (Inr q)
    have q: "q \<noteq> FunctionValue"
      using Inr assms(4) find_property_plain(2)[OF assms(1)]
      by (auto simp: inherited_def split: prototype.splits)
    show ?thesis
      using False Inr q assms set_prototype_plain[OF assms(2,4)]
      by (cases q) (auto simp: assign_def plain_prop_set)
  qed
qed

lemma add_custom_plain:
  assumes "plain_heap h"
  shows "plain_props cs \<Longrightarrow> plain_props m \<Longrightarrow> p \<noteq> FunctionValue \<Longrightarrow>
     \<exists>m' p'. add_custom h (m, p) cs = Inr (m', p') \<and> plain_props m' \<and> p' \<noteq> FunctionValue"
proof (induction cs arbitrary: m p)
  case Nil
  then show ?case by simp
next
  case (Cons c cs)
  obtain key val where c: "c = (key, val)" by (cases c)
  have val: "is_plain val" and cs: "plain_props cs"
    using Cons.prems(1) c by (simp_all add: plain_props_def)
  show ?case
  proof (cases "key \<in> RESERVED_FIELDS")
    case True
    then show ?thesis
      using Cons.IH[OF cs Cons.prems(2,3)] c by simp
  next
    case False
    obtain m1 p1 where a: "assign h key val (m, p) = Inr (m1, p1)"
      and m1: "plain_props m1" and p1: "p1 \<noteq> FunctionValue"
      using assign_plain[OF assms val Cons.prems(2,3)] by blast
    show ?thesis
      using Cons.IH[OF cs m1 p1] False a c by simp
  qed
qed

lemma log_entry_plain:
  assumes "plain_heap h" and "plain_store ctx" and "is_plain message"
  shows "\<exists>m p. log_entry ctx h now level message data = Inr (m, p) \<and> plain_props m
           \<and> p \<noteq> FunctionValue"
proof -
  obtain copied where copied: "own_entries h data = Inr copied" and pc: "plain_props copied"
    using own_entries_plain[OF assms(1)] by blast
  have draft: "plain_props (draft_entry ctx now level message copied)"
    using assms(2,3) pc by (rule plain_draft_entry)
  show ?thesis
  proof (cases "custom ctx")
    case None
    then show ?thesis
      using copied draft by (simp add: log_entry_def)
  next
    case (Some c)
    then have "plain_slots c"
      using assms(2) by (simp add: plain_store_def)
    then obtain cs where cs: "entries c = Inr cs" and pcs: "plain_props cs"
      using entries_plain by blast
    obtain m p where "add_custom h (draft_entry ctx now level message copied, ObjectPrototype) cs
        = Inr (m, p)" and "plain_props m" and "p \<noteq> FunctionValue"
      using add_custom_plain[OF assms(1) pcs draft] by blast
    then show ?thesis
      using copied Some cs by (simp add: log_entry_def)
  qed
qed

lemma entry_serializes:
  assumes "plain_heap h" and "plain_props (fst e)" and "snd e \<noteq> FunctionValue"
  shows "\<exists>ms. safeStringify_document (h @ [entry_object e]) (VRef (length h)) = Inr (Some (JObject ms))
           \<and> (\<forall>k j. plain_json (prop_get (fst e) k) = Some j \<longrightarrow> map_of ms k = Some j)"
proof -
  have heap: "plain_heap (h @ [entry_object e])"
    using assms by (simp add: plain_heap_def plain_object_def entry_object_def plain_slots_data)
  have root: "toJSON_step (h @ [entry_object e]) (VRef (length h)) = Inr (VRef (length h))"
    using heap by (rule toJSON_step_plain)
  have nc: "safeStringify_document (h @ [entry_object e]) (VRef (length h)) \<noteq> Inl TypeError_Circular"
    by (rule safeStringify_document_never_circular)
  have slots: "plain_slots (data_slots (fst e))"
    using assms(2) by (simp add: plain_slots_data)
  have "SerializeJSONObject (h @ [entry_object e]) seen_replacer {length h} [length h]
          (data_slots (fst e)) = Inl err \<Longrightarrow> err = TypeError_Circular" for err
    using no_error_plain(2)[OF refl heap slots] .
  then obtain r where r: "safeStringify_document (h @ [entry_object e]) (VRef (length h)) = Inr r"
    using nc unfolding safeStringify_document_entry[OF root]
    by (cases "SerializeJSONObject (h @ [entry_object e]) seen_replacer {length h} [length h]
          (data_slots (fst e))") auto
  show ?thesis
    using entry_document_member[OF root r] r by auto
qed

text \<open>
  On such values a call that passes the level gate writes one line: the text of the JSON
  object of the entry, with the JSON form of every member that is a primitive.
\<close>

lemma emit_plain:
  assumes "plain_heap h" and "plain_store (current_ctx s)" and "is_plain message"
    and "\<not> below_minimum s level"
  shows "\<exists>e ms. log_entry (current_ctx s) h now level message data = Inr e
           \<and> emit conv s h now level message data = Inr (dispatch s level (render (JObject ms)))
           \<and> (\<forall>k j. plain_json (prop_get (fst e) k) = Some j \<longrightarrow> map_of ms k = Some j)"
proof -
  obtain m p where e: "log_entry (current_ctx s) h now level message data = Inr (m, p)"
    and m: "plain_props m" and p: "p \<noteq> FunctionValue"
    using log_entry_plain[OF assms(1,2,3)] by blast
  obtain ms where ser:
    "safeStringify_document (h @ [entry_object (m, p)]) (VRef (length h)) = Inr (Some (JObject ms))"
    and mem: "\<forall>k j. plain_json (prop_get (fst (m, p)) k) = Some j \<longrightarrow> map_of ms k = Some j"
    using entry_serializes[of h "(m, p)"] assms(1) m p by auto
  have "emit conv s h now level message data = Inr (dispatch s level (render (JObject ms)))"
    using emit_regular[OF assms(4) e ser] by (simp add: text_of_def)
  then show ?thesis
    using e mem by blast
qed

lemma emit_identity_line:
  assumes "plain_heap h" and "plain_store (current_ctx s)" and "is_plain message"
    and "\<not> below_minimum s level" and "own_entries h data = Inr copied"
    and "''userId'' \<notin> fst ` set copied" and "''txId'' \<notin> fst ` set copied"
    and "plain_json (coalesce (userId (current_ctx s)) VNull) = Some ju"
    and "plain_json (coalesce (txId (current_ctx s)) VNull) = Some jt"
  shows "\<exists>ms. emit conv s h now level message data = Inr (dispatch s level (render (JObject ms)))
           \<and> map_of ms ''userId'' = Some ju \<and> map_of ms ''txId'' = Some jt"
proof -
  obtain e ms where e: "log_entry (current_ctx s) h now level message data = Inr e"
    and out: "emit conv s h now level message data = Inr (dispatch s level (render (JObject ms)))"
    and mem: "\<forall>k j. plain_json (prop_get (fst e) k) = Some j \<longrightarrow> map_of ms k = Some j"
    using emit_plain[OF assms(1,2,3,4)] by blast
  have "map_of ms ''userId'' = Some ju" "map_of ms ''txId'' = Some jt"
    using mem entry_identity[OF e assms(5,6,7)] assms(8,9) by auto
  then show ?thesis
    using out by blast
qed

text \<open>
The definitions a concrete call of \<^verbatim>\<open>emit\<close> unfolds to.
\<close>

lemmas eval_emit =
  emit_def emit_second_def initial_def below_minimum_def LOG_LEVELS_def getStore_def current_ctx_def
  empty_store_def log_entry_def log_entry_second_def draft_entry_def own_entries_def spread_def prop_set_def
  coalesce_def nullish_def stringify_entry_def safeStringify_def safeStringify_document_def
  JSON_document_def SerializeJSONProperty.simps seen_replacer_def fallback_entry_def
  prop_get_def JSON_stringify_def no_replacer_def text_of_def dispatch_def
  prepare_def toJSON_step_def Get_def Call_def data_slots_def entry_object_def String_of_def
  assign_def inherited_def set_prototype_def RESERVED_FIELDS_def

section \<open>Reserved fields\<close>

text \<open>
  C1.  Custom keys that collide with the reserved fields are to be dropped at emission,
  not merged.  The second copy of \<^verbatim>\<open>emit\<close> (lines 308 to 311) merges \<^verbatim>\<open>ctx.custom\<close> with
  \<^verbatim>\<open>Object.assign\<close> and drops nothing: in a context established by \<^verbatim>\<open>withContext\<close>, after
  \<^verbatim>\<open>addContext({ msg: 'spoof', level: 'error' })\<close> its \<^verbatim>\<open>log.info('real')\<close> writes the line
  whose \<^verbatim>\<open>msg\<close> is \<^verbatim>\<open>spoof\<close> and whose \<^verbatim>\<open>level\<close> is \<^verbatim>\<open>error\<close>.  The first copy (lines 69 to 76)
  writes at the same calls the line the specification asks for.
\<close>

theorem second_copy_merges_reserved:
  "fst (withContext uuid \<lparr>userId = VStr u, txId = VStr t, custom = None\<rparr>
          (then_log spoof (VRef 0) (\<lambda>s. emit_second s spoof now ''info'' (VStr ''real'') VUndefined))
          initial) =
     Inr [ConsoleLog (render (JObject
       [(''ts'', JString now), (''level'', JString ''error''), (''userId'', JString u),
        (''txId'', JString t), (''msg'', JString ''spoof'')]))]
   \<and> fst (withContext uuid \<lparr>userId = VStr u, txId = VStr t, custom = None\<rparr>
          (then_log spoof (VRef 0) (\<lambda>s. log_info conv s spoof now (VStr ''real'') VUndefined))
          initial) =
     Inr [ConsoleLog (render (JObject
       [(''ts'', JString now), (''level'', JString ''info''), (''userId'', JString u),
        (''txId'', JString t), (''msg'', JString ''real'')]))]"
  by (simp add: withContext_def new_store_def asyncContext_run_def addContext_def spoof_def
      then_log_def log_info_def Object_assign.simps eval_emit)

text \<open>
  The filter of the first copy is by name.  A custom \<^verbatim>\<open>toJSON\<close> is not reserved: it
  becomes a member of the entry, and \<^verbatim>\<open>JSON.stringify\<close> writes what it returns in place of
  the event.  A custom key \<^verbatim>\<open>__proto__\<close> is the prototype setter: it adds no member.
\<close>

lemma custom_toJSON_replaces_event:
  "emit conv (initial\<lparr>stores := [\<lparr>userId = VNull, txId = VNull,
        custom = Some [(''toJSON'', Data (VFunction (Returns (VRef 1))))]\<rparr>], active := Some 0\<rparr>)
     spoofing_toJSON now ''info'' (VStr ''real'') VUndefined =
   Inr [ConsoleLog (render (JObject [(''msg'', JString ''spoof''), (''level'', JString ''error'')]))]"
  by (simp add: eval_emit spoofing_toJSON_def)

lemma proto_key_adds_no_member:
  "fst (then_log proto_key (VRef 0)
          (\<lambda>s. emit conv s proto_key now ''info'' (VStr ''m'') VUndefined)
          (initial\<lparr>stores := [\<lparr>userId = VNull, txId = VNull, custom = Some []\<rparr>],
                   active := Some 0\<rparr>)) =
   Inr [ConsoleLog (render (JObject
       [(''ts'', JString now), (''level'', JString ''info''), (''userId'', JNull),
        (''txId'', JNull), (''msg'', JString ''m''), (''a'', JNum 1)]))]"
  by (simp add: then_log_def addContext_def proto_key_def eval_emit)

section \<open>Structured data against the fixed fields\<close>




section \<open>Serialization failures\<close>

text \<open>
  C2.  \<^verbatim>\<open>emit\<close> is to catch every failure of serialization and write a fallback event
  instead of raising.  It does not at the call \<^verbatim>\<open>log.info(message, { ts: 10n })\<close>: the spread
  of line 65 has replaced the entry's \<^verbatim>\<open>ts\<close> by the BigInt, \<^verbatim>\<open>safeStringify\<close> throws, and the
  fallback literal of line 84 reads \<^verbatim>\<open>entry.ts\<close> again, so the \<^verbatim>\<open>JSON.stringify\<close> inside the
  \<^verbatim>\<open>catch\<close> block throws the same \<^verbatim>\<open>TypeError\<close>, which leaves \<^verbatim>\<open>emit\<close>.
\<close>

theorem fallback_rethrows:
  "emit conv initial [Obj ObjectPrototype [(''ts'', Data (VBigInt 10))]] now ''info'' (VStr message)
     (VRef 0) = Inl TypeError_BigInt"
  by (simp add: eval_emit)

text \<open>
  Two more calls: a getter of the data that throws does so in the spread of line 65,
  before the \<^verbatim>\<open>try\<close>; a BigInt as message fails in \<^verbatim>\<open>safeStringify\<close> and is written by the
  fallback.
\<close>

lemma getter_raises:
  "emit conv initial throwing_getter now ''info'' message (VRef 0) = Inl Thrown"
  by (simp add: eval_emit throwing_getter_def)

lemma bigint_message_falls_back:
  "emit conv initial [] now ''info'' (VBigInt 10) VUndefined =
     Inr [ConsoleLog (render (JObject
       [(''ts'', JString now), (''level'', JString ''error''),
        (''msg'', JString ''Failed to serialize log entry''),
        (''originalMsg'', JString (show_int 10))]))]"
  by (simp add: eval_emit)

section \<open>The level gate\<close>

text \<open>
  Below the minimum, \<^verbatim>\<open>emit\<close> returns without writing; at or above it, a call on plain
  values hands exactly one line to the sinks.  With the minimum \<^verbatim>\<open>warn\<close>, the levels below
  are \<^verbatim>\<open>debug\<close> and \<^verbatim>\<open>info\<close>.  A level option that names a member \<^verbatim>\<open>LOG_LEVELS\<close> inherits
  leaves no gate at all.
\<close>

lemma level_gate:
  "(below_minimum s level \<longrightarrow> emit conv s h now level message data = Inr [])
   \<and> (\<not> below_minimum s level \<and> plain_heap h \<and> plain_store (current_ctx s) \<and> is_plain message \<longrightarrow>
        (\<exists>line. emit conv s h now level message data = Inr (dispatch s level line)))"
proof (intro conjI impI)
  assume "below_minimum s level"
  then show "emit conv s h now level message data = Inr []"
    by (simp add: emit_def)
next
  assume "\<not> below_minimum s level \<and> plain_heap h \<and> plain_store (current_ctx s) \<and> is_plain message"
  then show "\<exists>line. emit conv s h now level message data = Inr (dispatch s level line)"
    using emit_plain[of h s message level now data conv] by blast
qed

lemma minimum_warn:
  assumes "currentLevel s = Rank 2"
  shows "below_minimum s ''debug'' \<and> below_minimum s ''info''
    \<and> \<not> below_minimum s ''warn'' \<and> \<not> below_minimum s ''error''"
  using assms by (simp add: below_minimum_def LOG_LEVELS_def)

lemma dispatch_console:
  "outputMode s = ''console'' \<Longrightarrow>
     dispatch s level line =
       [if level = ''error'' then ConsoleError line
        else if level = ''warn'' then ConsoleWarn line else ConsoleLog line]"
  by (simp add: dispatch_def)

lemma inherited_level_disables_gate:
  "currentLevel (snd (replaceConsole resolve mkdir_ok
      \<lparr>opt_level = Some ''constructor'', opt_output = None, opt_filePath = None\<rparr> s)) = NotANumber
   \<and> \<not> below_minimum (snd (replaceConsole resolve mkdir_ok
      \<lparr>opt_level = Some ''constructor'', opt_output = None, opt_filePath = None\<rparr> s)) level"
  by (simp add: replaceConsole_def level_lookup_def LOG_LEVELS_def Object_prototype_members_def
      below_minimum_def split: option.splits)

text \<open>
  C5.  A call at or above the minimum level is to produce exactly one event.  With the
  minimum \<^verbatim>\<open>warn\<close>, the call \<^verbatim>\<open>log.error(message, { ts: 10n })\<close> passes the gate and
  produces none: it ends in the \<^verbatim>\<open>TypeError\<close> of the fallback (the defect of C2), before
  anything is written.
\<close>

theorem passing_call_without_event:
  "snd (replaceConsole resolve mkdir_ok
          \<lparr>opt_level = Some ''warn'', opt_output = None, opt_filePath = None\<rparr> initial) =
     initial\<lparr>currentLevel := Rank 2\<rparr>
   \<and> \<not> below_minimum (initial\<lparr>currentLevel := Rank 2\<rparr>) ''error''
   \<and> emit conv (initial\<lparr>currentLevel := Rank 2\<rparr>) [Obj ObjectPrototype [(''ts'', Data (VBigInt 10))]]
        now ''error'' (VStr message) (VRef 0)
       = Inl TypeError_BigInt"
  by (simp add: replaceConsole_def level_lookup_def eval_emit)

section \<open>Cycles\<close>

text \<open>
  C3.  Cyclic structured data is not to raise; the line is to hold the marker in place of
  the cyclic reference.  The second copy of \<^verbatim>\<open>emit\<close> serializes with \<^verbatim>\<open>JSON.stringify\<close>
  (line 313), outside any \<^verbatim>\<open>try\<close>: at \<^verbatim>\<open>log.info(message, d)\<close> with \<^verbatim>\<open>d.self = d\<close> the
  circular-structure \<^verbatim>\<open>TypeError\<close> leaves \<^verbatim>\<open>emit\<close>.  The first copy writes at the same call
  the line with \<^verbatim>\<open>[Circular]\<close> where \<^verbatim>\<open>d\<close> refers to itself.
\<close>

theorem second_copy_raises_on_cycle:
  "JSON_stringify cyclic (VRef 0) = Inl TypeError_Circular
   \<and> emit_second initial cyclic now ''info'' (VStr message) (VRef 0) = Inl TypeError_Circular
   \<and> emit conv initial cyclic now ''info'' (VStr message) (VRef 0) =
       Inr [ConsoleLog (render (JObject
         [(''ts'', JString now), (''level'', JString ''info''), (''userId'', JNull),
          (''txId'', JNull), (''self'', JObject [(''self'', JString ''[Circular]'')]),
          (''msg'', JString message)]))]"
  by (simp add: cyclic_def eval_emit)

text \<open>
  In the first copy a value that does not serialize beside the cycle makes the line the
  fallback event, which holds no marker.
\<close>

lemma cycle_beside_bigint_falls_back:
  "emit conv initial cyclic_bigint now ''info'' (VStr message) (VRef 0) =
       Inr [ConsoleLog (render (JObject
         [(''ts'', JString now), (''level'', JString ''error''),
          (''msg'', JString ''Failed to serialize log entry''),
          (''originalMsg'', JString message)]))]"
  by (simp add: eval_emit cyclic_bigint_def)

text \<open>
  C10.  The serializer takes a shared object for a cycle.  In \<open>shared\<close> nothing is
  cyclic, \<^verbatim>\<open>JSON.stringify\<close> writes the object behind \<^verbatim>\<open>a\<close> and \<^verbatim>\<open>b\<close> twice; \<^verbatim>\<open>safeStringify\<close>
  writes it once, and \<^verbatim>\<open>[Circular]\<close> for its second occurrence, since \<open>seen\<close> keeps every
  object visited and not only those on the path from the root.
\<close>

theorem shared_reference_marked:
  "JSON_stringify shared (VRef 0) =
     Inr (render (JObject
       [(''a'', JObject [(''x'', JNum 1)]), (''b'', JObject [(''x'', JNum 1)])]))
   \<and> safeStringify shared (VRef 0) =
     Inr (render (JObject
       [(''a'', JObject [(''x'', JNum 1)]), (''b'', JString ''[Circular]'')]))"
  by (simp add: shared_def eval_emit)

section \<open>Initialization without a file path\<close>

text \<open>
  C6, as the specification has it, fails: selecting file output without \<^verbatim>\<open>filePath\<close>
  surfaces nothing.  \<^verbatim>\<open>replaceConsole({ output: 'file' })\<close> returns normally in either copy,
  even on a file system where every \<^verbatim>\<open>mkdirSync\<close> would fail, and the error-level call that
  follows is written nowhere.
\<close>

theorem missing_filePath_passes_silently:
  "replaceConsole (\<lambda>p. p) (\<lambda>p. False)
     \<lparr>opt_level = None, opt_output = Some ''file'', opt_filePath = None\<rparr> initial =
     (None, initial\<lparr>outputMode := ''file''\<rparr>)
   \<and> emit no_conversion (initial\<lparr>outputMode := ''file''\<rparr>) [] ''T'' ''error'' (VStr ''m'') VUndefined
       = Inr []
   \<and> replaceConsole_second (\<lambda>p. p) (\<lambda>p. False)
     \<lparr>opt_level = None, opt_output = Some ''file'', opt_filePath = None\<rparr> initial =
     (None, initial\<lparr>outputMode := ''file''\<rparr>)
   \<and> emit_second (initial\<lparr>outputMode := ''file''\<rparr>) [] ''T'' ''error'' (VStr ''m'') VUndefined
       = Inr []"
  by (simp add: replaceConsole_def replaceConsole_second_def level_lookup_def eval_emit)

text \<open>
  C6, amended.  When file output is selected and \<^verbatim>\<open>filePath\<close> is omitted (or empty),
  \<^verbatim>\<open>replaceConsole\<close> raises nothing: it returns with the level and the mode set and opens
  no stream (the guard of line 221).  The first copy leaves the stream variable as it
  was: a later line goes to the stream an earlier initialization has opened, if there is
  one, and in the mode \<^verbatim>\<open>both\<close> to the console; with no such stream, in the mode \<^verbatim>\<open>file\<close>
  it is written nowhere.  The second copy resets its path, so there a later line goes to
  no file.
\<close>

theorem missing_filePath_is_ignored:
  "(opt_filePath opts = None \<or> opt_filePath opts = Some []) \<and> opt_output opts = Some output
     \<and> (output = ''file'' \<or> output = ''both'') \<longrightarrow>
   replaceConsole resolve mkdir_ok opts s =
     (None,
      s\<lparr>currentLevel := level_lookup (case opt_level opts of None \<Rightarrow> ''info'' | Some l \<Rightarrow> l),
        outputMode := output\<rparr>)
   \<and> dispatch (snd (replaceConsole resolve mkdir_ok opts s)) level line =
       (case logFileStream s of None \<Rightarrow> [] | Some f \<Rightarrow> [StreamWrite (line @ [CHR 0x0A])])
       @ (if output = ''both''
          then [if level = ''error'' then ConsoleError line
                else if level = ''warn'' then ConsoleWarn line
                else ConsoleLog line]
          else [])
   \<and> replaceConsole_second resolve mkdir_ok opts s =
     (None,
      s\<lparr>currentLevel := level_lookup (case opt_level opts of None \<Rightarrow> ''info'' | Some l \<Rightarrow> l),
        outputMode := output, logFileStream := None\<rparr>)
   \<and> dispatch (snd (replaceConsole_second resolve mkdir_ok opts s)) level line =
       (if output = ''both''
        then [if level = ''error'' then ConsoleError line
              else if level = ''warn'' then ConsoleWarn line
              else ConsoleLog line]
        else [])"
  by (auto simp: replaceConsole_def replaceConsole_second_def Let_def dispatch_def
      split: option.splits)

text \<open>
  The theorem at \<^verbatim>\<open>replaceConsole({ level: 'warn', output: 'both' })\<close>, after an
  initialization that had opened a stream and without one.
\<close>

theorem missing_filePath_is_ignored_witness:
  "opt_filePath \<lparr>opt_level = Some ''warn'', opt_output = Some ''both'', opt_filePath = None\<rparr> = None
   \<and> opt_output \<lparr>opt_level = Some ''warn'', opt_output = Some ''both'', opt_filePath = None\<rparr>
       = Some ''both''
   \<and> replaceConsole (\<lambda>p. p) (\<lambda>p. False)
        \<lparr>opt_level = Some ''warn'', opt_output = Some ''both'', opt_filePath = None\<rparr>
        (initial\<lparr>logFileStream := Some ''/var/log/app.log''\<rparr>) =
       (None, initial\<lparr>currentLevel := Rank 2, outputMode := ''both'',
                      logFileStream := Some ''/var/log/app.log''\<rparr>)
   \<and> dispatch (snd (replaceConsole (\<lambda>p. p) (\<lambda>p. False)
        \<lparr>opt_level = Some ''warn'', opt_output = Some ''both'', opt_filePath = None\<rparr>
        (initial\<lparr>logFileStream := Some ''/var/log/app.log''\<rparr>)))
        ''error'' ''line'' = [StreamWrite (''line'' @ [CHR 0x0A]), ConsoleError ''line'']
   \<and> dispatch (snd (replaceConsole (\<lambda>p. p) (\<lambda>p. False)
        \<lparr>opt_level = Some ''warn'', opt_output = Some ''both'', opt_filePath = None\<rparr> initial))
        ''error'' ''line'' = [ConsoleError ''line'']
   \<and> dispatch (snd (replaceConsole_second (\<lambda>p. p) (\<lambda>p. False)
        \<lparr>opt_level = Some ''warn'', opt_output = Some ''both'', opt_filePath = None\<rparr>
        (initial\<lparr>logFileStream := Some ''/var/log/app.log''\<rparr>)))
        ''error'' ''line'' = [ConsoleError ''line'']"
  using missing_filePath_is_ignored[of
      "\<lparr>opt_level = Some ''warn'', opt_output = Some ''both'', opt_filePath = None\<rparr>"
      "''both''" "\<lambda>p. p" "\<lambda>p. False" "initial\<lparr>logFileStream := Some ''/var/log/app.log''\<rparr>"
      "''error''" "''line''"]
    missing_filePath_is_ignored[of
      "\<lparr>opt_level = Some ''warn'', opt_output = Some ''both'', opt_filePath = None\<rparr>"
      "''both''" "\<lambda>p. p" "\<lambda>p. False" initial "''error''" "''line''"]
  by (simp add: level_lookup_def LOG_LEVELS_def initial_def replaceConsole_def
      replaceConsole_second_def dispatch_def)

section \<open>\<^verbatim>\<open>withContext\<close>\<close>

text \<open>
  C8.  \<^verbatim>\<open>withContext(seed, fn)\<close> runs \<open>fn\<close> in a state whose active record has the
  seed's identity and correlation id when they are present (neither \<^verbatim>\<open>undefined\<close> nor
  \<^verbatim>\<open>null\<close>), and otherwise \<^verbatim>\<open>null\<close> for the identity and the next identifier of the
  supply for the correlation id, which no earlier call has drawn when the supply never
  repeats.  It returns the result of \<open>fn\<close>, and a continuation of the chain resumed after
  \<^verbatim>\<open>withContext\<close> has returned still finds the record.
\<close>

theorem withContext_establishes:
  "(let est = \<lparr>userId = coalesce (userId seed) VNull,
               txId = (if nullish (txId seed) then VStr (uuid (generated s)) else txId seed),
               custom = Some (case custom seed of None \<Rightarrow> [] | Some c \<Rightarrow> c)\<rparr>;
        s_in = s\<lparr>generated := (if nullish (txId seed) then Suc (generated s) else generated s),
                 stores := stores s @ [est],
                 active := Some (length (stores s))\<rparr>
    in withContext uuid seed fn s = (fst (fn s_in), (snd (fn s_in))\<lparr>active := active s\<rparr>)
       \<and> getStore s_in = Some est
       \<and> (\<not> nullish (userId seed) \<longrightarrow> userId est = userId seed)
       \<and> (\<not> nullish (txId seed) \<longrightarrow> txId est = txId seed)
       \<and> (nullish (txId seed) \<longrightarrow>
            txId est = VStr (uuid (generated s)) \<and> generated s_in = Suc (generated s)
            \<and> (inj uuid \<longrightarrow> (\<forall>n < generated s. uuid n \<noteq> uuid (generated s))))
       \<and> fst (withContext uuid seed fn s) = fst (fn s_in)
       \<and> fst (asyncContext_run (length (stores s)) (\<lambda>t. (getStore t, t))
                (snd (withContext uuid seed (\<lambda>t. ((), t)) s))) = Some est)"
proof -
  have fresh: "inj uuid \<longrightarrow> (\<forall>n < generated s. uuid n \<noteq> uuid (generated s))"
    by (auto dest: injD)
  show ?thesis
    using fresh
    by (simp add: Let_def withContext_def randomUUID_def new_store_def asyncContext_run_def
          getStore_def coalesce_def case_prod_beta)
qed

text \<open>
  The theorem at a seed without a correlation id, after two identifiers have been
  drawn, and at the seed of the source's example.
\<close>

lemma inj_tally: "inj tally"
proof (rule injI)
  fix m n
  assume "tally m = tally n"
  then have "length (tally m) = length (tally n)" by simp
  then show "m = n" by (simp add: tally_def)
qed

theorem withContext_establishes_witness:
  "nullish (txId job_fresh) \<and> \<not> nullish (userId job_fresh) \<and> inj tally
   \<and> fst (withContext tally job_fresh (\<lambda>t. (getStore t, t)) (initial\<lparr>generated := 2\<rparr>)) =
       Some \<lparr>userId = VStr ''system'', txId = VStr ''uu'', custom = Some []\<rparr>
   \<and> tally 0 \<noteq> tally 2 \<and> tally 1 \<noteq> tally 2
   \<and> \<not> nullish (txId job_named)
   \<and> fst (withContext tally job_named (\<lambda>t. (getStore t, t)) initial) =
       Some \<lparr>userId = VStr ''system'', txId = VStr ''batch-job-123'', custom = Some []\<rparr>"
proof -
  have two: "tally 2 = ''uu''"
    by (simp add: tally_def numeral_2_eq_2)
  have pre: "nullish (txId job_fresh) \<and> \<not> nullish (userId job_fresh) \<and> \<not> nullish (txId job_named)
      \<and> \<not> nullish (userId job_named)"
    by (simp add: job_fresh_def job_named_def nullish_def)
  have gen: "generated (initial\<lparr>generated := 2\<rparr>) = 2"
    by simp
  from withContext_establishes[of job_fresh tally "initial\<lparr>generated := 2\<rparr>" "\<lambda>t. (getStore t, t)"]
  have fresh: "fst (withContext tally job_fresh (\<lambda>t. (getStore t, t)) (initial\<lparr>generated := 2\<rparr>)) =
       Some \<lparr>userId = VStr ''system'', txId = VStr ''uu'', custom = Some []\<rparr>
     \<and> (\<forall>n<2. tally n \<noteq> tally 2)"
    using pre inj_tally two
    by (simp add: Let_def job_fresh_def coalesce_def nullish_def)
  from withContext_establishes[of job_named tally initial "\<lambda>t. (getStore t, t)"]
  have named: "fst (withContext tally job_named (\<lambda>t. (getStore t, t)) initial) =
       Some \<lparr>userId = VStr ''system'', txId = VStr ''batch-job-123'', custom = Some []\<rparr>"
    using pre
    by (simp add: Let_def job_named_def coalesce_def nullish_def)
  have "tally 0 \<noteq> tally 2" "tally 1 \<noteq> tally 2"
    using fresh by simp_all
  then show ?thesis
    using pre inj_tally fresh named by simp
qed

section \<open>Separate establishments\<close>

text \<open>
  Every establishment makes a record of its own: a new address, which leaves the records
  that exist as they are.  The middleware establishes the identity resolved from the
  request, the correlation id of the header (a fresh one when the header is absent or
  empty) and an empty \<^verbatim>\<open>custom\<close>; in the context of the README's request, an info-level
  call writes the README's line.
\<close>

lemma establishments_distinct:
  "fst (new_store st s) \<noteq> fst (new_store st' (snd (new_store st s)))"
  "stores (snd (new_store st s)) ! fst (new_store st s) = st"
  "a < length (stores s) \<Longrightarrow> stores (snd (new_store st s)) ! a = stores s ! a"
  by (simp_all add: new_store_def nth_append)

lemma loggerMiddleware_record:
  "loggerMiddleware uuid resolved header next s =
     snd (asyncContext_run (length (stores s)) next
       (s\<lparr>generated :=
            (case header of
               Some t \<Rightarrow> if t \<noteq> [] then generated s else Suc (generated s)
             | None \<Rightarrow> Suc (generated s)),
          stores := stores s @
            [\<lparr>userId = coalesce resolved VNull,
              txId = VStr (case header of
                             Some t \<Rightarrow> if t \<noteq> [] then t else uuid (generated s)
                           | None \<Rightarrow> uuid (generated s)),
              custom = Some []\<rparr>]\<rparr>))"
  by (cases header) (simp_all add: loggerMiddleware_def randomUUID_def new_store_def)

lemma request_scenario:
  "fst (asyncContext_run 0 (\<lambda>s. (log_info conv s [] now (VStr ''contact created'') VUndefined, s))
         (initial\<lparr>stores :=
            [\<lparr>userId = VStr ''alex_123'', txId = VStr ''abc-789'', custom = Some []\<rparr>]\<rparr>)) =
     Inr [ConsoleLog (render (JObject
       [(''ts'', JString now), (''level'', JString ''info''), (''userId'', JString ''alex_123''),
        (''txId'', JString ''abc-789''), (''msg'', JString ''contact created'')]))]"
  by (simp add: asyncContext_run_def log_info_def eval_emit)

section \<open>Chains that share the thread\<close>

text \<open>
  A step of a chain reads the configuration and the record of its own chain, and changes
  at most the \<^verbatim>\<open>custom\<close> of that record.
\<close>

lemma view_getStore:
  "view a s = view a t \<Longrightarrow> getStore (s\<lparr>active := Some a\<rparr>) = getStore (t\<lparr>active := Some a\<rparr>)"
  by (auto simp: view_def getStore_def split: if_splits)

lemma emit_cong:
  assumes "currentLevel s = currentLevel t" and "outputMode s = outputMode t"
    and "logFileStream s = logFileStream t" and "current_ctx s = current_ctx t"
  shows "emit conv s h now level message data = emit conv t h now level message data"
proof -
  have below: "below_minimum s level = below_minimum t level"
    by (simp add: below_minimum_def assms(1) split: option.splits)
  have disp: "dispatch s level out = dispatch t level out" for out
    by (simp add: dispatch_def assms(2,3))
  show ?thesis
    unfolding emit_def below assms(4) disp ..
qed

lemma emit_view:
  assumes "view a s = view a t"
  shows "emit conv (s\<lparr>active := Some a\<rparr>) h now level message data =
         emit conv (t\<lparr>active := Some a\<rparr>) h now level message data"
proof (rule emit_cong)
  show "current_ctx (s\<lparr>active := Some a\<rparr>) = current_ctx (t\<lparr>active := Some a\<rparr>)"
    using view_getStore[OF assms] by (simp add: current_ctx_def)
qed (use assms in \<open>simp_all add: view_def\<close>)

lemma addContext_frame:
  assumes "addContext h added s = Inr s'"
  shows "currentLevel s' = currentLevel s" "outputMode s' = outputMode s"
    "logFileStream s' = logFileStream s" "active s' = active s" "generated s' = generated s"
    "length (stores s') = length (stores s)"
    "map userId (stores s') = map userId (stores s)"
    "map txId (stores s') = map txId (stores s)"
  using assms
  by (auto simp: addContext_def map_update list_update_same_conv
      split: option.splits if_splits sum.splits)

lemma addContext_other:
  "addContext h added s = Inr s' \<Longrightarrow> active s = Some c \<Longrightarrow> c \<noteq> a \<Longrightarrow>
     stores s' ! a = stores s ! a"
  by (auto simp: addContext_def split: option.splits if_splits sum.splits)

lemma addContext_view:
  assumes "view a s = view a t"
  shows "map_sum id (view a) (addContext h added (s\<lparr>active := Some a\<rparr>)) =
         map_sum id (view a) (addContext h added (t\<lparr>active := Some a\<rparr>))"
  using assms
  by (auto simp: view_def addContext_def split: if_splits sum.splits)

lemma perform_state:
  "snd (asyncContext_run c (perform conv h call) s) = s
   \<or> (\<exists>added s'. call = AddContext added \<and> addContext h added (s\<lparr>active := Some c\<rparr>) = Inr s'
         \<and> snd (asyncContext_run c (perform conv h call) s) = s'\<lparr>active := active s\<rparr>)"
  by (cases call) (auto simp: asyncContext_run_def perform_def split: sum.splits)

lemma step_frame:
  "currentLevel (snd (asyncContext_run c (perform conv h call) s)) = currentLevel s"
  "outputMode (snd (asyncContext_run c (perform conv h call) s)) = outputMode s"
  "logFileStream (snd (asyncContext_run c (perform conv h call) s)) = logFileStream s"
  "length (stores (snd (asyncContext_run c (perform conv h call) s))) = length (stores s)"
  "map userId (stores (snd (asyncContext_run c (perform conv h call) s))) = map userId (stores s)"
  "map txId (stores (snd (asyncContext_run c (perform conv h call) s))) = map txId (stores s)"
  using perform_state[of c conv h call s] addContext_frame[of h _ "s\<lparr>active := Some c\<rparr>"]
  by auto

lemma step_other_view:
  assumes "c \<noteq> a"
  shows "view a (snd (asyncContext_run c (perform conv h call) s)) = view a s"
proof -
  have "stores (snd (asyncContext_run c (perform conv h call) s)) ! a = stores s ! a"
    using perform_state[of c conv h call s]
      addContext_other[of h _ "s\<lparr>active := Some c\<rparr>" _ c a] assms
    by auto
  then show ?thesis
    by (simp add: view_def step_frame)
qed

lemma step_same_view:
  assumes "view a s = view a t"
  shows "fst (asyncContext_run a (perform conv h call) s) =
         fst (asyncContext_run a (perform conv h call) t)"
    and "view a (snd (asyncContext_run a (perform conv h call) s)) =
         view a (snd (asyncContext_run a (perform conv h call) t))"
proof -
  have restore: "view a (u\<lparr>active := x\<rparr>) = view a u" for u :: logger and x
    by (simp add: view_def)
  show "fst (asyncContext_run a (perform conv h call) s) =
        fst (asyncContext_run a (perform conv h call) t)"
  proof (cases call)
    case (Log now level message data)
    then show ?thesis
      using emit_view[OF assms] by (simp add: asyncContext_run_def perform_def)
  next
    case (AddContext added)
    then show ?thesis
      using addContext_view[OF assms, of h added]
      by (auto simp: asyncContext_run_def perform_def split: sum.splits)
  qed
  show "view a (snd (asyncContext_run a (perform conv h call) s)) =
        view a (snd (asyncContext_run a (perform conv h call) t))"
  proof (cases call)
    case (Log now level message data)
    then show ?thesis
      using assms by (simp add: asyncContext_run_def perform_def view_def)
  next
    case (AddContext added)
    then show ?thesis
      using addContext_view[OF assms, of h added] assms
      by (auto simp: asyncContext_run_def perform_def restore split: sum.splits)
  qed
qed

lemma interleave_projection:
  "view a s = view a t \<Longrightarrow>
     [x \<leftarrow> fst (interleave conv h sched s). fst x = a] =
     fst (interleave conv h [x \<leftarrow> sched. fst x = a] t)"
proof (induction sched arbitrary: s t)
  case Nil
  then show ?case by simp
next
  case (Cons step sched)
  obtain c call where step: "step = (c, call)" by (cases step)
  obtain r s' where run: "asyncContext_run c (perform conv h call) s = (r, s')"
    by (cases "asyncContext_run c (perform conv h call) s")
  show ?case
  proof (cases "c = a")
    case True
    obtain r' t' where run': "asyncContext_run a (perform conv h call) t = (r', t')"
      by (cases "asyncContext_run a (perform conv h call) t")
    have "r = r'" and v: "view a s' = view a t'"
      using step_same_view[OF Cons.prems, of conv h call] run run' True by simp_all
    then show ?thesis
      using Cons.IH[OF v] step run run' True
      by (simp add: case_prod_beta)
  next
    case False
    have "view a s' = view a t"
      using step_other_view[OF False, of conv h call s] run Cons.prems by simp
    then show ?thesis
      using Cons.IH step run False
      by (simp add: case_prod_beta)
  qed
qed

lemma interleave_frame:
  "currentLevel (snd (interleave conv h sched s)) = currentLevel s
   \<and> outputMode (snd (interleave conv h sched s)) = outputMode s
   \<and> logFileStream (snd (interleave conv h sched s)) = logFileStream s
   \<and> length (stores (snd (interleave conv h sched s))) = length (stores s)
   \<and> map userId (stores (snd (interleave conv h sched s))) = map userId (stores s)
   \<and> map txId (stores (snd (interleave conv h sched s))) = map txId (stores s)"
proof (induction sched arbitrary: s)
  case Nil
  then show ?case by simp
next
  case (Cons step sched)
  obtain c call where step: "step = (c, call)" by (cases step)
  show ?case
    using Cons.IH[of "snd (asyncContext_run c (perform conv h call) s)"] step
    by (simp add: case_prod_beta step_frame)
qed

lemma interleave_others_view:
  "a \<notin> fst ` set sched \<Longrightarrow> view a (snd (interleave conv h sched s)) = view a s"
proof (induction sched arbitrary: s)
  case Nil
  then show ?case by simp
next
  case (Cons step sched)
  obtain c call where step: "step = (c, call)" by (cases step)
  have ne: "c \<noteq> a" and rest: "a \<notin> fst ` set sched"
    using Cons.prems step by auto
  show ?case
    using Cons.IH[OF rest, of "snd (asyncContext_run c (perform conv h call) s)"]
      step_other_view[OF ne, of conv h call s] step
    by (simp add: case_prod_beta)
qed

lemma current_ctx_view:
  "a < length (stores s) \<Longrightarrow> current_ctx (s\<lparr>active := Some a\<rparr>) = stores s ! a"
  by (simp add: current_ctx_def getStore_def)

lemma interleave_record_identity:
  assumes "a < length (stores s)"
  shows "userId (stores (snd (interleave conv h sched s)) ! a) = userId (stores s ! a)"
    and "txId (stores (snd (interleave conv h sched s)) ! a) = txId (stores s ! a)"
proof -
  let ?s' = "snd (interleave conv h sched s)"
  have len: "a < length (stores ?s')"
    using assms interleave_frame[of conv h sched s] by simp
  have "map userId (stores ?s') ! a = map userId (stores s) ! a"
    "map txId (stores ?s') ! a = map txId (stores s) ! a"
    using interleave_frame[of conv h sched s] by simp_all
  then show "userId (stores ?s' ! a) = userId (stores s ! a)"
    and "txId (stores ?s' ! a) = txId (stores s ! a)"
    using len assms by simp_all
qed

lemma addContext_plain:
  assumes "plain_heap h" and "addContext h added s = Inr s'"
    and "a < length (stores s)" and "plain_store (stores s ! a)"
  shows "plain_store (stores s' ! a)"
proof (cases "active s = Some a")
  case False
  then have "stores s' ! a = stores s ! a"
    using assms(2) by (auto simp: addContext_def split: option.splits if_splits sum.splits)
  then show ?thesis using assms(4) by simp
next
  case True
  then obtain old new where old: "entries (case custom (stores s ! a) of None \<Rightarrow> [] | Some c \<Rightarrow> c) = Inr old"
    and new: "own_entries h added = Inr new"
    and s': "s' = s\<lparr>stores := (stores s)
                     [a := (stores s ! a)\<lparr>custom := Some (data_slots (spread (spread [] old) new))\<rparr>]\<rparr>"
    using assms(2,3) by (auto simp: addContext_def split: sum.splits)
  have "plain_slots (case custom (stores s ! a) of None \<Rightarrow> [] | Some c \<Rightarrow> c)"
    using assms(4) by (auto simp: plain_store_def plain_slots_def split: option.splits)
  then have pold: "plain_props old"
    using entries_plain old by fastforce
  have pnew: "plain_props new"
    using own_entries_plain[OF assms(1), of added] new by simp
  have "plain_props (spread (spread [] old) new)"
    by (intro plain_spread pold pnew) (simp add: plain_props_def)
  then show ?thesis
    using assms(3,4) s' by (simp add: plain_store_def plain_slots_data)
qed

lemma step_plain:
  assumes "plain_heap h" and "a < length (stores s)" and "plain_store (stores s ! a)"
  shows "plain_store (stores (snd (asyncContext_run c (perform conv h call) s)) ! a)"
  using perform_state[of c conv h call s]
    addContext_plain[OF assms(1), of _ "s\<lparr>active := Some c\<rparr>" _ a] assms(2,3)
  by auto

lemma interleave_plain:
  assumes "plain_heap h"
  shows "a < length (stores s) \<Longrightarrow> plain_store (stores s ! a) \<Longrightarrow>
     plain_store (stores (snd (interleave conv h sched s)) ! a)"
proof (induction sched arbitrary: s)
  case Nil
  then show ?case by simp
next
  case (Cons step sched)
  obtain c call where step: "step = (c, call)" by (cases step)
  let ?s1 = "snd (asyncContext_run c (perform conv h call) s)"
  have len: "a < length (stores ?s1)"
    using Cons.prems(1) by (simp add: step_frame)
  have "plain_store (stores ?s1 ! a)"
    using step_plain[OF assms Cons.prems] .
  then show ?case
    using Cons.IH[OF len] step by (simp add: case_prod_beta)
qed

text \<open>
  C4.  Chain isolation.  The middleware binds for the request a record of its own, at a
  new address.  Whatever the interleaving of the steps of all chains on the one thread:
  the calls of chain \<open>a\<close> give exactly what they give when the steps of every other chain
  are left out, so nothing of another chain reaches them; no step changes the identity
  or the correlation id of any record, and the record bound in a continuation of \<open>a\<close> has
  those of \<open>a\<close>; and the line a log call of \<open>a\<close> writes has the identity and the
  correlation id of the record of \<open>a\<close> (stated for plain values, for a call that passes the
  level gate and names no identity of its own in its structured data, which C9 covers).
\<close>

theorem chain_isolation:
  "loggerMiddleware uuid resolved header next s =
     snd (asyncContext_run (length (stores s)) next
       (s\<lparr>generated :=
            (case header of
               Some t \<Rightarrow> if t \<noteq> [] then generated s else Suc (generated s)
             | None \<Rightarrow> Suc (generated s)),
          stores := stores s @
            [\<lparr>userId = coalesce resolved VNull,
              txId = VStr (case header of
                             Some t \<Rightarrow> if t \<noteq> [] then t else uuid (generated s)
                           | None \<Rightarrow> uuid (generated s)),
              custom = Some []\<rparr>]\<rparr>))
   \<and> [x \<leftarrow> fst (interleave conv h sched s). fst x = a] =
     fst (interleave conv h [x \<leftarrow> sched. fst x = a] s)
   \<and> map userId (stores (snd (interleave conv h sched s))) = map userId (stores s)
   \<and> map txId (stores (snd (interleave conv h sched s))) = map txId (stores s)
   \<and> (a < length (stores s) \<longrightarrow>
        userId (current_ctx ((snd (interleave conv h sched s))\<lparr>active := Some a\<rparr>))
          = userId (stores s ! a)
        \<and> txId (current_ctx ((snd (interleave conv h sched s))\<lparr>active := Some a\<rparr>))
          = txId (stores s ! a))
   \<and> (a < length (stores s) \<and> plain_heap h \<and> plain_store (stores s ! a) \<and> is_plain message
        \<and> \<not> below_minimum s level \<and> own_entries h data = Inr copied
        \<and> ''userId'' \<notin> fst ` set copied \<and> ''txId'' \<notin> fst ` set copied
        \<and> plain_json (coalesce (userId (stores s ! a)) VNull) = Some ju
        \<and> plain_json (coalesce (txId (stores s ! a)) VNull) = Some jt \<longrightarrow>
      (\<exists>ms. emit conv ((snd (interleave conv h sched s))\<lparr>active := Some a\<rparr>) h now level message data
               = Inr (dispatch s level (render (JObject ms)))
            \<and> map_of ms ''userId'' = Some ju \<and> map_of ms ''txId'' = Some jt))"
proof (intro conjI impI)
  let ?s' = "snd (interleave conv h sched s)"
  let ?t = "?s'\<lparr>active := Some a\<rparr>"
  show "loggerMiddleware uuid resolved header next s =
     snd (asyncContext_run (length (stores s)) next
       (s\<lparr>generated :=
            (case header of
               Some t \<Rightarrow> if t \<noteq> [] then generated s else Suc (generated s)
             | None \<Rightarrow> Suc (generated s)),
          stores := stores s @
            [\<lparr>userId = coalesce resolved VNull,
              txId = VStr (case header of
                             Some t \<Rightarrow> if t \<noteq> [] then t else uuid (generated s)
                           | None \<Rightarrow> uuid (generated s)),
              custom = Some []\<rparr>]\<rparr>))"
    by (rule loggerMiddleware_record)
  show "[x \<leftarrow> fst (interleave conv h sched s). fst x = a] =
     fst (interleave conv h [x \<leftarrow> sched. fst x = a] s)"
    by (rule interleave_projection) simp
  show "map userId (stores ?s') = map userId (stores s)"
    and "map txId (stores ?s') = map txId (stores s)"
    using interleave_frame[of conv h sched s] by simp_all
  have ctx: "current_ctx ?t = stores ?s' ! a" if "a < length (stores s)"
    using that interleave_frame[of conv h sched s] by (simp add: current_ctx_view)
  {
    assume a: "a < length (stores s)"
    show "userId (current_ctx ?t) = userId (stores s ! a)"
      and "txId (current_ctx ?t) = txId (stores s ! a)"
      using ctx[OF a] interleave_record_identity[OF a, of conv h sched] by simp_all
  }
  assume hyp: "a < length (stores s) \<and> plain_heap h \<and> plain_store (stores s ! a) \<and> is_plain message
        \<and> \<not> below_minimum s level \<and> own_entries h data = Inr copied
        \<and> ''userId'' \<notin> fst ` set copied \<and> ''txId'' \<notin> fst ` set copied
        \<and> plain_json (coalesce (userId (stores s ! a)) VNull) = Some ju
        \<and> plain_json (coalesce (txId (stores s ! a)) VNull) = Some jt"
  then have a: "a < length (stores s)" and h: "plain_heap h" by simp_all
  have pctx: "plain_store (current_ctx ?t)"
    using interleave_plain[OF h a, of conv sched] hyp ctx[OF a] by simp
  have "below_minimum ?t level = below_minimum s level"
    using interleave_frame[of conv h sched s] by (simp add: below_minimum_def split: option.splits)
  then have gate: "\<not> below_minimum ?t level"
    using hyp by simp
  have ids: "plain_json (coalesce (userId (current_ctx ?t)) VNull) = Some ju"
    "plain_json (coalesce (txId (current_ctx ?t)) VNull) = Some jt"
    using hyp ctx[OF a] interleave_record_identity[OF a, of conv h sched] by simp_all
  have disp: "dispatch ?t level out = dispatch s level out" for out
    using interleave_frame[of conv h sched s] by (simp add: dispatch_def)
  obtain ms where "emit conv ?t h now level message data = Inr (dispatch ?t level (render (JObject ms)))"
    and "map_of ms ''userId'' = Some ju" and "map_of ms ''txId'' = Some jt"
    using emit_identity_line[OF h pctx _ gate _ _ _ ids, of message data copied conv now] hyp
    by blast
  then show "\<exists>ms. emit conv ?t h now level message data = Inr (dispatch s level (render (JObject ms)))
            \<and> map_of ms ''userId'' = Some ju \<and> map_of ms ''txId'' = Some jt"
    using disp by auto
qed

text \<open>
  The theorem at the two chains, with \<^verbatim>\<open>bob\<close> adding context and logging around the call
  of \<^verbatim>\<open>alice\<close>.
\<close>

theorem chain_isolation_witness:
  "0 < length (stores two_chains) \<and> plain_heap order_fields
   \<and> plain_store (stores two_chains ! 0) \<and> \<not> below_minimum two_chains ''info''
   \<and> own_entries order_fields VUndefined = Inr []
   \<and> plain_json (coalesce (userId (stores two_chains ! 0)) VNull) = Some (JString ''alice'')
   \<and> plain_json (coalesce (txId (stores two_chains ! 0)) VNull) = Some (JString ''t-alice'')
   \<and> fst (interleave no_conversion order_fields
          [(1, AddContext (VRef 0)), (0, Log ''T'' ''info'' (VStr ''a'') VUndefined),
           (1, Log ''T'' ''info'' (VStr ''b'') VUndefined)] two_chains) =
       [(1, Inr []),
        (0, Inr [ConsoleLog (render (JObject
            [(''ts'', JString ''T''), (''level'', JString ''info''), (''userId'', JString ''alice''),
             (''txId'', JString ''t-alice''), (''msg'', JString ''a'')]))]),
        (1, Inr [ConsoleLog (render (JObject
            [(''ts'', JString ''T''), (''level'', JString ''info''), (''userId'', JString ''bob''),
             (''txId'', JString ''t-bob''), (''msg'', JString ''b''), (''order'', JNum 7)]))])]
   \<and> fst (interleave no_conversion order_fields
          [(0, Log ''T'' ''info'' (VStr ''a'') VUndefined)] two_chains) =
       [(0, Inr [ConsoleLog (render (JObject
            [(''ts'', JString ''T''), (''level'', JString ''info''), (''userId'', JString ''alice''),
             (''txId'', JString ''t-alice''), (''msg'', JString ''a'')]))])]
   \<and> emit no_conversion ((snd (interleave no_conversion order_fields
          [(1, AddContext (VRef 0)), (0, Log ''T'' ''info'' (VStr ''a'') VUndefined),
           (1, Log ''T'' ''info'' (VStr ''b'') VUndefined)] two_chains))\<lparr>active := Some 0\<rparr>)
        order_fields ''T'' ''info'' (VStr ''late'') VUndefined =
       Inr [ConsoleLog (render (JObject
            [(''ts'', JString ''T''), (''level'', JString ''info''), (''userId'', JString ''alice''),
             (''txId'', JString ''t-alice''), (''msg'', JString ''late'')]))]"
proof -
  let ?sched = "[(1, AddContext (VRef 0)), (0, Log ''T'' ''info'' (VStr ''a'') VUndefined),
           (1, Log ''T'' ''info'' (VStr ''b'') VUndefined)]"
  have pre: "0 < length (stores two_chains) \<and> plain_heap order_fields
      \<and> plain_store (stores two_chains ! 0) \<and> \<not> below_minimum two_chains ''info''
      \<and> own_entries order_fields VUndefined = Inr []
      \<and> plain_json (coalesce (userId (stores two_chains ! 0)) VNull) = Some (JString ''alice'')
      \<and> plain_json (coalesce (txId (stores two_chains ! 0)) VNull) = Some (JString ''t-alice'')"
    by (simp add: two_chains_def initial_def plain_heap_def plain_object_def plain_slots_def
        order_fields_def plain_store_def below_minimum_def LOG_LEVELS_def own_entries_def
        coalesce_def nullish_def)
  have all: "fst (interleave no_conversion order_fields ?sched two_chains) =
       [(1, Inr []),
        (0, Inr [ConsoleLog (render (JObject
            [(''ts'', JString ''T''), (''level'', JString ''info''), (''userId'', JString ''alice''),
             (''txId'', JString ''t-alice''), (''msg'', JString ''a'')]))]),
        (1, Inr [ConsoleLog (render (JObject
            [(''ts'', JString ''T''), (''level'', JString ''info''), (''userId'', JString ''bob''),
             (''txId'', JString ''t-bob''), (''msg'', JString ''b''), (''order'', JNum 7)]))])]"
    by (simp add: two_chains_def order_fields_def asyncContext_run_def perform_def addContext_def
        eval_emit)
  have alone: "fst (interleave no_conversion order_fields
          [(0, Log ''T'' ''info'' (VStr ''a'') VUndefined)] two_chains) =
       [(0, Inr [ConsoleLog (render (JObject
            [(''ts'', JString ''T''), (''level'', JString ''info''), (''userId'', JString ''alice''),
             (''txId'', JString ''t-alice''), (''msg'', JString ''a'')]))])]"
    by (simp add: two_chains_def asyncContext_run_def perform_def eval_emit)
  have late: "emit no_conversion ((snd (interleave no_conversion order_fields ?sched two_chains))
          \<lparr>active := Some 0\<rparr>) order_fields ''T'' ''info'' (VStr ''late'') VUndefined =
       Inr [ConsoleLog (render (JObject
            [(''ts'', JString ''T''), (''level'', JString ''info''), (''userId'', JString ''alice''),
             (''txId'', JString ''t-alice''), (''msg'', JString ''late'')]))]"
    by (simp add: two_chains_def order_fields_def asyncContext_run_def perform_def addContext_def
        eval_emit)
  from chain_isolation[where a = 0 and conv = no_conversion and h = order_fields
      and sched = ?sched and s = two_chains]
  have "[x \<leftarrow> fst (interleave no_conversion order_fields ?sched two_chains). fst x = 0] =
     fst (interleave no_conversion order_fields [x \<leftarrow> ?sched. fst x = 0] two_chains)"
    by blast
  then show ?thesis
    using pre all alone late by simp
qed

section \<open>Capture and restore\<close>

lemma captured_view:
  "view (fst (captureContext s)) (snd (captureContext s)) =
     (currentLevel s, outputMode s, logFileStream s, Some (current_ctx s))"
  by (simp add: captureContext_def new_store_def view_def)

text \<open>
  C7.  The round trip.  Let the context be captured, let any steps of the chains that
  exist follow (the originating chain among them) and let any binding, or none, be active
  afterwards.  Inside \<^verbatim>\<open>runWithCapturedContext\<close> the active record is then the record as it
  was when captured, and every call of \<^verbatim>\<open>emit\<close> gives what the same call gave in the
  originating chain at the time of the capture; so the line it writes has the identity
  and the correlation id of the original record (stated for plain values, for a call that
  passes the level gate and names no identity of its own in its structured data, which C9
  covers).
\<close>

theorem capture_restore_roundtrip:
  "fst (captureContext s) \<notin> fst ` set sched \<longrightarrow>
   (let cap = fst (captureContext s);
        s2 = (snd (interleave conv h sched (snd (captureContext s))))\<lparr>active := later\<rparr>
    in fst (runWithCapturedContext cap (\<lambda>t. (getStore t, t)) s2) = Some (current_ctx s)
       \<and> fst (runWithCapturedContext cap (\<lambda>t. (emit conv t h now level message data, t)) s2) =
           emit conv s h now level message data
       \<and> (plain_heap h \<and> plain_store (current_ctx s) \<and> is_plain message
            \<and> \<not> below_minimum s level \<and> own_entries h data = Inr copied
            \<and> ''userId'' \<notin> fst ` set copied \<and> ''txId'' \<notin> fst ` set copied
            \<and> plain_json (coalesce (userId (current_ctx s)) VNull) = Some ju
            \<and> plain_json (coalesce (txId (current_ctx s)) VNull) = Some jt \<longrightarrow>
          (\<exists>ms. fst (runWithCapturedContext cap (\<lambda>t. (emit conv t h now level message data, t)) s2)
                   = Inr (dispatch s level (render (JObject ms)))
                \<and> map_of ms ''userId'' = Some ju \<and> map_of ms ''txId'' = Some jt)))"
proof
  assume others: "fst (captureContext s) \<notin> fst ` set sched"
  define cap where "cap = fst (captureContext s)"
  define s2 where "s2 = (snd (interleave conv h sched (snd (captureContext s))))\<lparr>active := later\<rparr>"
  have "view cap (snd (interleave conv h sched (snd (captureContext s)))) =
        view cap (snd (captureContext s))"
    using others unfolding cap_def by (rule interleave_others_view)
  then have v0: "view cap (snd (interleave conv h sched (snd (captureContext s)))) =
      (currentLevel s, outputMode s, logFileStream s, Some (current_ctx s))"
    unfolding cap_def captured_view .
  have "view cap (s2\<lparr>active := Some cap\<rparr>) =
      view cap (snd (interleave conv h sched (snd (captureContext s))))"
    by (simp add: s2_def view_def)
  then have v: "view cap (s2\<lparr>active := Some cap\<rparr>) =
      (currentLevel s, outputMode s, logFileStream s, Some (current_ctx s))"
    using v0 by simp
  have cfg: "currentLevel (s2\<lparr>active := Some cap\<rparr>) = currentLevel s"
    "outputMode (s2\<lparr>active := Some cap\<rparr>) = outputMode s"
    "logFileStream (s2\<lparr>active := Some cap\<rparr>) = logFileStream s"
    using v by (simp_all add: view_def)
  have store: "getStore (s2\<lparr>active := Some cap\<rparr>) = Some (current_ctx s)"
    using v by (auto simp: view_def getStore_def split: if_splits)
  then have ctx: "current_ctx (s2\<lparr>active := Some cap\<rparr>) = current_ctx s"
    by (simp add: current_ctx_def)
  have logs: "emit conv (s2\<lparr>active := Some cap\<rparr>) h now level message data =
      emit conv s h now level message data"
    using cfg ctx by (rule emit_cong)
  have run: "fst (runWithCapturedContext cap (\<lambda>t. (getStore t, t)) s2) = Some (current_ctx s)
       \<and> fst (runWithCapturedContext cap (\<lambda>t. (emit conv t h now level message data, t)) s2) =
           emit conv s h now level message data"
    using store logs by (simp add: runWithCapturedContext_def asyncContext_run_def)
  have line: "\<exists>ms. fst (runWithCapturedContext cap (\<lambda>t. (emit conv t h now level message data, t)) s2)
                   = Inr (dispatch s level (render (JObject ms)))
                \<and> map_of ms ''userId'' = Some ju \<and> map_of ms ''txId'' = Some jt"
    if hyp: "plain_heap h \<and> plain_store (current_ctx s) \<and> is_plain message
            \<and> \<not> below_minimum s level \<and> own_entries h data = Inr copied
            \<and> ''userId'' \<notin> fst ` set copied \<and> ''txId'' \<notin> fst ` set copied
            \<and> plain_json (coalesce (userId (current_ctx s)) VNull) = Some ju
            \<and> plain_json (coalesce (txId (current_ctx s)) VNull) = Some jt"
    using emit_identity_line[of h s message level data copied ju jt conv now] hyp run by auto
  show "let cap = fst (captureContext s);
        s2 = (snd (interleave conv h sched (snd (captureContext s))))\<lparr>active := later\<rparr>
    in fst (runWithCapturedContext cap (\<lambda>t. (getStore t, t)) s2) = Some (current_ctx s)
       \<and> fst (runWithCapturedContext cap (\<lambda>t. (emit conv t h now level message data, t)) s2) =
           emit conv s h now level message data
       \<and> (plain_heap h \<and> plain_store (current_ctx s) \<and> is_plain message
            \<and> \<not> below_minimum s level \<and> own_entries h data = Inr copied
            \<and> ''userId'' \<notin> fst ` set copied \<and> ''txId'' \<notin> fst ` set copied
            \<and> plain_json (coalesce (userId (current_ctx s)) VNull) = Some ju
            \<and> plain_json (coalesce (txId (current_ctx s)) VNull) = Some jt \<longrightarrow>
          (\<exists>ms. fst (runWithCapturedContext cap (\<lambda>t. (emit conv t h now level message data, t)) s2)
                   = Inr (dispatch s level (render (JObject ms)))
                \<and> map_of ms ''userId'' = Some ju \<and> map_of ms ''txId'' = Some jt))"
    using run line unfolding Let_def cap_def[symmetric] s2_def[symmetric] by blast
qed

text \<open>
  The theorem at the snapshot of the record of \<^verbatim>\<open>alice\<close>, restored after she has added
  context and \<^verbatim>\<open>bob\<close> has logged: the restored call writes her identity and not the
  context she added after the capture.
\<close>

theorem capture_restore_roundtrip_witness:
  "fst (captureContext (two_chains\<lparr>active := Some 0\<rparr>))
      \<notin> fst ` set [(0, AddContext (VRef 0)), (1, Log ''T'' ''info'' (VStr ''b'') VUndefined)]
   \<and> fst (runWithCapturedContext (fst (captureContext (two_chains\<lparr>active := Some 0\<rparr>)))
          (\<lambda>t. (getStore t, t))
          ((snd (interleave no_conversion order_fields
                   [(0, AddContext (VRef 0)), (1, Log ''T'' ''info'' (VStr ''b'') VUndefined)]
                   (snd (captureContext (two_chains\<lparr>active := Some 0\<rparr>)))))\<lparr>active := None\<rparr>)) =
       Some \<lparr>userId = VStr ''alice'', txId = VStr ''t-alice'', custom = Some []\<rparr>
   \<and> fst (runWithCapturedContext (fst (captureContext (two_chains\<lparr>active := Some 0\<rparr>)))
          (\<lambda>t. (emit no_conversion t order_fields ''T'' ''info'' (VStr ''late'') VUndefined, t))
          ((snd (interleave no_conversion order_fields
                   [(0, AddContext (VRef 0)), (1, Log ''T'' ''info'' (VStr ''b'') VUndefined)]
                   (snd (captureContext (two_chains\<lparr>active := Some 0\<rparr>)))))\<lparr>active := None\<rparr>)) =
       Inr [ConsoleLog (render (JObject
         [(''ts'', JString ''T''), (''level'', JString ''info''), (''userId'', JString ''alice''),
          (''txId'', JString ''t-alice''), (''msg'', JString ''late'')]))]
   \<and> emit no_conversion ((snd (interleave no_conversion order_fields
                   [(0, AddContext (VRef 0)), (1, Log ''T'' ''info'' (VStr ''b'') VUndefined)]
                   (snd (captureContext (two_chains\<lparr>active := Some 0\<rparr>)))))\<lparr>active := Some 0\<rparr>)
          order_fields ''T'' ''info'' (VStr ''late'') VUndefined =
       Inr [ConsoleLog (render (JObject
         [(''ts'', JString ''T''), (''level'', JString ''info''), (''userId'', JString ''alice''),
          (''txId'', JString ''t-alice''), (''msg'', JString ''late''), (''order'', JNum 7)]))]"
proof -
  have pre: "fst (captureContext (two_chains\<lparr>active := Some 0\<rparr>))
      \<notin> fst ` set [(0, AddContext (VRef 0)), (1, Log ''T'' ''info'' (VStr ''b'') VUndefined)]"
    by (simp add: captureContext_def new_store_def two_chains_def initial_def)
  have orig: "current_ctx (two_chains\<lparr>active := Some 0\<rparr>) =
      \<lparr>userId = VStr ''alice'', txId = VStr ''t-alice'', custom = Some []\<rparr>"
    by (simp add: current_ctx_def getStore_def two_chains_def initial_def)
  have line: "emit no_conversion (two_chains\<lparr>active := Some 0\<rparr>) order_fields ''T'' ''info''
        (VStr ''late'') VUndefined =
      Inr [ConsoleLog (render (JObject
         [(''ts'', JString ''T''), (''level'', JString ''info''), (''userId'', JString ''alice''),
          (''txId'', JString ''t-alice''), (''msg'', JString ''late'')]))]"
    by (simp add: two_chains_def eval_emit)
  have origin: "emit no_conversion ((snd (interleave no_conversion order_fields
                   [(0, AddContext (VRef 0)), (1, Log ''T'' ''info'' (VStr ''b'') VUndefined)]
                   (snd (captureContext (two_chains\<lparr>active := Some 0\<rparr>)))))\<lparr>active := Some 0\<rparr>)
          order_fields ''T'' ''info'' (VStr ''late'') VUndefined =
       Inr [ConsoleLog (render (JObject
         [(''ts'', JString ''T''), (''level'', JString ''info''), (''userId'', JString ''alice''),
          (''txId'', JString ''t-alice''), (''msg'', JString ''late''), (''order'', JNum 7)]))]"
    by (simp add: two_chains_def order_fields_def captureContext_def new_store_def
        asyncContext_run_def perform_def addContext_def eval_emit)
  from capture_restore_roundtrip[where s = "two_chains\<lparr>active := Some 0\<rparr>"
      and sched = "[(0, AddContext (VRef 0)), (1, Log ''T'' ''info'' (VStr ''b'') VUndefined)]"
      and h = order_fields and later = None and now = "''T''" and level = "''info''"
      and message = "VStr ''late''" and data = VUndefined and conv = no_conversion] pre
  have "fst (runWithCapturedContext (fst (captureContext (two_chains\<lparr>active := Some 0\<rparr>)))
          (\<lambda>t. (getStore t, t))
          ((snd (interleave no_conversion order_fields
                   [(0, AddContext (VRef 0)), (1, Log ''T'' ''info'' (VStr ''b'') VUndefined)]
                   (snd (captureContext (two_chains\<lparr>active := Some 0\<rparr>)))))\<lparr>active := None\<rparr>)) =
       Some (current_ctx (two_chains\<lparr>active := Some 0\<rparr>))
     \<and> fst (runWithCapturedContext (fst (captureContext (two_chains\<lparr>active := Some 0\<rparr>)))
          (\<lambda>t. (emit no_conversion t order_fields ''T'' ''info'' (VStr ''late'') VUndefined, t))
          ((snd (interleave no_conversion order_fields
                   [(0, AddContext (VRef 0)), (1, Log ''T'' ''info'' (VStr ''b'') VUndefined)]
                   (snd (captureContext (two_chains\<lparr>active := Some 0\<rparr>)))))\<lparr>active := None\<rparr>)) =
       emit no_conversion (two_chains\<lparr>active := Some 0\<rparr>) order_fields ''T'' ''info''
         (VStr ''late'') VUndefined"
    unfolding Let_def by blast
  then show ?thesis
    using pre orig line origin by simp
qed

end
